theory Spec2Isabelle
  imports Main "HOL-Library.Signed_Division"
begin

section \<open>Values crossing the contract boundary\<close>

text \<open>
  Every quantity of the contract (amounts, durations, timestamps, basis points) travels
  and is stored as a string and is read with \<^verbatim>\<open>BigInt(...)\<close>. A string field is one of:
  absent (\<^verbatim>\<open>undefined\<close>), the empty string, a non-empty string that is no integer
  literal, or a non-empty string that \<^verbatim>\<open>BigInt\<close> parses to an integer.
  \<^verbatim>\<open>BigInt(undefined)\<close> raises a TypeError, \<^verbatim>\<open>BigInt('')\<close> is \<open>0n\<close>, and a string
  that is no integer literal raises a SyntaxError. The contract's own fields that are
  written with \<^verbatim>\<open>x.toString()\<close> of a bigint and read back with \<^verbatim>\<open>BigInt\<close> are held
  as the integer itself.
\<close>

datatype decstr = Undefined | Empty | Garbage | Num int

datatype error =
    TypeError
  | SyntaxError
  | AlreadyInitialized
  | TokenAccountRequired
  | TgeTimestampRequired
  | GroupsRequired
  | GroupIdRequired
  | DuplicateGroupId string
  | DurationsNegative
  | InitialUnlockNegative
  | InitialUnlockTooLarge
  | InitialClaimParamRequired
  | InitialClaimBasisOutOfRange
  | InitialClaimTimestampNegative
  | InitialClaimTimestampRequired
  | InvestorsRequired
  | InvestorFieldsRequired
  | DuplicateInvestor string
  | UnknownGroup string
  | AmountNotPositive
  | AllocationBelowClaimed string
  | OnlyOwner
  | OnlyOwnerOnBehalf
  | OnlySelf
  | OnlyTokenContract
  | OneYoctoRequired
  | NoAllocation
  | NothingToClaim
  | InsufficientPoolBalance
  | AmountRequired
  | WithdrawalNotPositive
  | WithdrawalExceedsPool
  | DepositNotPositive
  | InvestorRecordMissing
  | TokenTransferFailed
  | FunctionIsPrivate
  | FunctionNotPayable

fun BigInt :: "decstr \<Rightarrow> error + int" where
  "BigInt Undefined = Inl TypeError"
| "BigInt Empty = Inr 0"
| "BigInt Garbage = Inl SyntaxError"
| "BigInt (Num n) = Inr n"

text \<open>\<^verbatim>\<open>!x\<close> on a string field: true for \<^verbatim>\<open>undefined\<close> and for the empty string.\<close>

fun falsy :: "decstr \<Rightarrow> bool" where
  "falsy Undefined = True"
| "falsy Empty = True"
| "falsy Garbage = False"
| "falsy (Num n) = False"

text \<open>\<^verbatim>\<open>x ?? d\<close>: the default only when the field is absent.\<close>

fun nullish :: "decstr \<Rightarrow> decstr \<Rightarrow> decstr" where
  "nullish Undefined d = d"
| "nullish x d = x"

text \<open>\<^verbatim>\<open>!x\<close> on an identifier field (\<^verbatim>\<open>id\<close>, \<^verbatim>\<open>account_id\<close>, \<^verbatim>\<open>group_id\<close>).\<close>

fun falsy_id :: "string option \<Rightarrow> bool" where
  "falsy_id None = True"
| "falsy_id (Some x) = (x = [])"

definition ONE_YOCTO :: int where
  "ONE_YOCTO = 1"

definition BASIS_POINTS_DENOMINATOR :: int where
  "BASIS_POINTS_DENOMINATOR = 10000"

section \<open>The contract's data\<close>

record GroupConfigInput =
  id_field :: "string option"
  cliff_duration_ns :: decstr
  vesting_duration_ns :: decstr
  initial_unlock_basis_points :: decstr

record GroupConfigStored =
  cliffDurationNs :: int
  vestingDurationNs :: int
  initialUnlockBasisPoints :: int

record InvestorInput =
  account_id :: "string option"
  group_id :: "string option"
  amount :: decstr

record InvestorRecord =
  groupId :: string
  totalAllocation :: int
  claimed :: int

text \<open>
  The fields of the class \<^verbatim>\<open>InvestorVesting\<close>. \<open>tgeTimestampNs\<close> is the one field that
  \<^verbatim>\<open>init\<close> stores as it receives it, without parsing, so it stays a string.
\<close>

record InvestorVesting =
  owner :: string
  tokenAccountId :: string
  tgeTimestampNs :: decstr
  initialClaimBasisPoints :: int
  initialClaimAvailableTimestampNs :: int
  totalDeposited :: int
  totalClaimed :: int
  totalWithdrawn :: int
  poolBalance :: int
  groups :: "string \<rightharpoonup> GroupConfigStored"
  investors :: "string \<rightharpoonup> InvestorRecord"

text \<open>The field initialisers of the class: the contract before \<^verbatim>\<open>init\<close>.\<close>

definition fresh :: InvestorVesting where
  "fresh = \<lparr> owner = [], tokenAccountId = [], tgeTimestampNs = Num 0,
     initialClaimBasisPoints = 0, initialClaimAvailableTimestampNs = 0,
     totalDeposited = 0, totalClaimed = 0, totalWithdrawn = 0, poolBalance = 0,
     groups = Map.empty, investors = Map.empty \<rparr>"

text \<open>What the host tells a call: who calls, the contract's own account, the attached
  deposit, the block timestamp, and whether the promise a callback resolves succeeded
  (\<^verbatim>\<open>near.promiseResult(0)\<close> raises when it failed).\<close>

record env =
  predecessorAccountId :: string
  currentAccountId :: string
  attachedDeposit :: int
  blockTimestamp :: nat
  promiseSucceeded :: bool

section \<open>The vesting calculator\<close>

text \<open>
  \<^verbatim>\<open>computeVestedAmount\<close>, statement by statement. \<^verbatim>\<open>/\<close> on bigints truncates toward
  zero (\<open>sdiv\<close>); it raises on a zero divisor, which neither use can meet: the first two
  divide by the constant 10000, the third runs only after \<^verbatim>\<open>vesting === 0\<close> has returned.
  The successive values of the variable \<^verbatim>\<open>vested\<close> are \<open>vested1\<close>, \<open>vested2\<close>, \<open>vested3\<close>.
\<close>

definition computeVestedAmount ::
  "InvestorVesting \<Rightarrow> int \<Rightarrow> GroupConfigStored \<Rightarrow> int \<Rightarrow> error + int" where
  "computeVestedAmount this total' grp timestamp =
    (case BigInt (tgeTimestampNs this) of
       Inl e \<Rightarrow> Inl e
     | Inr start \<Rightarrow>
        (let cliff = cliffDurationNs grp;
             vesting = vestingDurationNs grp;
             initialClaimStart = initialClaimAvailableTimestampNs this;
             initialClaimBps = initialClaimBasisPoints this;
             postCliffBps = initialUnlockBasisPoints grp;
             initialPortionRaw = (total' * initialClaimBps) sdiv BASIS_POINTS_DENOMINATOR;
             initialPortion = (if initialPortionRaw > total' then total' else initialPortionRaw);
             remainingAfterInitial = total' - initialPortion;
             postCliffPortionRaw = (total' * postCliffBps) sdiv BASIS_POINTS_DENOMINATOR;
             postCliffPortion =
               (if postCliffPortionRaw > remainingAfterInitial then remainingAfterInitial
                else postCliffPortionRaw);
             linearPortionBase = total' - initialPortion - postCliffPortion;
             vested1 = (if timestamp \<ge> initialClaimStart then 0 + initialPortion else 0)
         in if timestamp < start + cliff then
              Inr (if vested1 > total' then total' else vested1)
            else if vesting = 0 then Inr total'
            else
              (let vested2 = vested1 + postCliffPortion;
                   elapsed = timestamp - (start + cliff)
               in if elapsed \<ge> vesting then Inr total'
                  else
                    (let linearVested = (linearPortionBase * elapsed) sdiv vesting;
                         vested3 = vested2 + linearVested
                     in Inr (if vested3 > total' then total' else vested3)))))"

definition computeClaimable :: "InvestorVesting \<Rightarrow> string \<Rightarrow> int \<Rightarrow> error + int" where
  "computeClaimable this accountId timestamp =
    (case investors this accountId of
       None \<Rightarrow> Inr 0
     | Some record' \<Rightarrow>
        (case groups this (groupId record') of
           None \<Rightarrow> Inr 0
         | Some grp \<Rightarrow>
            (let total' = totalAllocation record'; claimed' = claimed record'
             in if total' = claimed' then Inr 0
                else
                  (case computeVestedAmount this total' grp timestamp of
                     Inl e \<Rightarrow> Inl e
                   | Inr vestable \<Rightarrow>
                       if vestable \<le> claimed' then Inr 0 else Inr (vestable - claimed')))))"

text \<open>
  The reference definition of the specification (section 4.1), in its words: the initial
  portion is the capped basis-point share, counted only from the global timestamp on and
  0 before; the remainder, the post-cliff portion and the linear base are then taken
  from that initial portion. All division truncates toward zero.
\<close>

definition vestedAmount_spec ::
  "int \<Rightarrow> GroupConfigStored \<Rightarrow> int \<Rightarrow> int \<Rightarrow> int \<Rightarrow> int \<Rightarrow> int" where
  "vestedAmount_spec total' grp overlayBps overlayAvailable tge now =
    (let initialPortion =
           (if now \<ge> overlayAvailable then min total' ((total' * overlayBps) sdiv 10000) else 0);
         remainingAfterInitial = total' - initialPortion
     in if now < tge + cliffDurationNs grp then min initialPortion total'
        else
          (let postCliffPortion =
                 min remainingAfterInitial ((total' * initialUnlockBasisPoints grp) sdiv 10000);
               linearBase = total' - initialPortion - postCliffPortion
           in if vestingDurationNs grp = 0 then total'
              else
                (let elapsed = now - (tge + cliffDurationNs grp)
                 in if elapsed \<ge> vestingDurationNs grp then total'
                    else initialPortion + postCliffPortion
                         + (linearBase * elapsed) sdiv vestingDurationNs grp)))"

section \<open>Calls, their results and the host\<close>

text \<open>
  A method either returns or throws. Its result here is the contract object as the
  method left it in memory, with the thrown error (\<open>Inl\<close>) or the returned value
  (\<open>Inr\<close>): the object of a call that throws shows how far the method had written.
  \<^verbatim>\<open>claim\<close> and \<^verbatim>\<open>withdraw_unallocated\<close> return the promise they built: an
  \<^verbatim>\<open>ft_transfer\<close> on the token contract followed by a callback on the contract itself.
\<close>

datatype continuation =
    on_claim_complete_args string decstr
  | on_withdraw_complete_args string decstr

datatype retval =
    Void
  | Text string
  | Transfer string decstr string continuation

type_synonym outcome = "InvestorVesting \<times> (error + retval)"

text \<open>
  The decorator \<^verbatim>\<open>@call({privateFunction, payableFunction})\<close> of near-sdk-js, which the
  source imports and puts on every mutating method; the library is not part of the
  repository. Before the method body runs it refuses a private method that another
  account calls (\<^verbatim>\<open>'Function is private'\<close>), and then a method that is not payable
  when a deposit is attached (\<^verbatim>\<open>'Function is not payable'\<close>). Only \<^verbatim>\<open>claim\<close> and
  \<^verbatim>\<open>withdraw_unallocated\<close> are payable, only the two callbacks are private;
  \<^verbatim>\<open>init\<close> carries \<^verbatim>\<open>@initialize\<close>, which makes neither check. The last argument is
  the result of the method body.
\<close>

definition call_decorator ::
  "bool \<Rightarrow> bool \<Rightarrow> InvestorVesting \<Rightarrow> env \<Rightarrow> outcome \<Rightarrow> outcome" where
  "call_decorator privateFunction payableFunction this env body =
    (if privateFunction \<and> predecessorAccountId env \<noteq> currentAccountId env
       then (this, Inl FunctionIsPrivate)
     else if \<not> payableFunction \<and> attachedDeposit env > 0
       then (this, Inl FunctionNotPayable)
     else body)"

subsection \<open>Group registry\<close>

text \<open>The body of the loop of \<^verbatim>\<open>setGroupsInternal\<close>, on the set \<^verbatim>\<open>seen\<close> and the map
  \<^verbatim>\<open>this.groups\<close>.\<close>

definition setGroupEntry ::
  "string set \<Rightarrow> (string \<rightharpoonup> GroupConfigStored) \<Rightarrow> GroupConfigInput
    \<Rightarrow> error + (string set \<times> (string \<rightharpoonup> GroupConfigStored))" where
  "setGroupEntry seen gm g =
    (case id_field g of
       None \<Rightarrow> Inl GroupIdRequired
     | Some gid \<Rightarrow>
        if gid = [] then Inl GroupIdRequired
        else if gid \<in> seen then Inl (DuplicateGroupId gid)
        else
          (case BigInt (cliff_duration_ns g) of
             Inl e \<Rightarrow> Inl e
           | Inr cliff \<Rightarrow>
              (case BigInt (vesting_duration_ns g) of
                 Inl e \<Rightarrow> Inl e
               | Inr vesting \<Rightarrow>
                  (case BigInt (nullish (initial_unlock_basis_points g) (Num 0)) of
                     Inl e \<Rightarrow> Inl e
                   | Inr initialUnlockBps \<Rightarrow>
                      if cliff < 0 \<or> vesting < 0 then Inl DurationsNegative
                      else if initialUnlockBps < 0 then Inl InitialUnlockNegative
                      else if initialUnlockBps > BASIS_POINTS_DENOMINATOR
                        then Inl InitialUnlockTooLarge
                      else Inr (insert gid seen,
                                gm(gid \<mapsto> \<lparr> cliffDurationNs = cliff,
                                              vestingDurationNs = vesting,
                                              initialUnlockBasisPoints = initialUnlockBps \<rparr>))))))"

fun setGroupsLoop ::
  "string set \<Rightarrow> (string \<rightharpoonup> GroupConfigStored) \<Rightarrow> GroupConfigInput list
    \<Rightarrow> (string \<rightharpoonup> GroupConfigStored) \<times> (error + unit)" where
  "setGroupsLoop seen gm [] = (gm, Inr ())"
| "setGroupsLoop seen gm (g # rest) =
    (case setGroupEntry seen gm g of
       Inl e \<Rightarrow> (gm, Inl e)
     | Inr (seen', gm') \<Rightarrow> setGroupsLoop seen' gm' rest)"

text \<open>\<^verbatim>\<open>setGroupsInternal\<close>: the registry is cleared before the first entry is looked at.\<close>

definition setGroupsInternal ::
  "InvestorVesting \<Rightarrow> GroupConfigInput list \<Rightarrow> InvestorVesting \<times> (error + unit)" where
  "setGroupsInternal this groups' =
    (if groups' = [] then (this, Inl GroupsRequired)
     else
       (case setGroupsLoop {} Map.empty groups' of
          (gm, r) \<Rightarrow> (this\<lparr>groups := gm\<rparr>, r)))"

subsection \<open>Global initial-claim overlay\<close>

definition setInitialClaimConfig ::
  "InvestorVesting \<Rightarrow> decstr \<Rightarrow> decstr \<Rightarrow> InvestorVesting \<times> (error + unit)" where
  "setInitialClaimConfig this initial_claim_basis_points initial_claim_available_timestamp_ns =
    (let basisSource = nullish initial_claim_basis_points (Num (initialClaimBasisPoints this));
         basisRaw = (if basisSource = Empty then Num 0 else basisSource)
     in case BigInt basisRaw of
          Inl e \<Rightarrow> (this, Inl e)
        | Inr basis \<Rightarrow>
           if basis < 0 \<or> basis > BASIS_POINTS_DENOMINATOR
             then (this, Inl InitialClaimBasisOutOfRange)
           else
             (let this1 = this\<lparr>initialClaimBasisPoints := basis\<rparr>;
                  timestampSource =
                    nullish initial_claim_available_timestamp_ns
                      (Num (initialClaimAvailableTimestampNs this1));
                  timestampRaw = (if timestampSource = Empty then Num 0 else timestampSource)
              in case BigInt timestampRaw of
                   Inl e \<Rightarrow> (this1, Inl e)
                 | Inr timestamp \<Rightarrow>
                    if timestamp < 0 then (this1, Inl InitialClaimTimestampNegative)
                    else if basis > 0 \<and> timestamp = 0
                      then (this1, Inl InitialClaimTimestampRequired)
                    else (this1\<lparr>initialClaimAvailableTimestampNs := timestamp\<rparr>, Inr ())))"

subsection \<open>Initialisation and configuration\<close>

record InitArgs =
  init_owner :: "string option"
  init_token_account_id :: "string option"
  init_tge_timestamp_ns :: decstr
  init_groups :: "GroupConfigInput list"
  init_initial_claim_basis_points :: decstr
  init_initial_claim_available_timestamp_ns :: decstr

definition init :: "InvestorVesting \<Rightarrow> env \<Rightarrow> InitArgs \<Rightarrow> outcome" where
  "init this env args =
    (if owner this \<noteq> [] then (this, Inl AlreadyInitialized)
     else
       (case init_token_account_id args of
          None \<Rightarrow> (this, Inl TokenAccountRequired)
        | Some token_account_id \<Rightarrow>
           if token_account_id = [] then (this, Inl TokenAccountRequired)
           else if falsy (init_tge_timestamp_ns args) then (this, Inl TgeTimestampRequired)
           else
             (let this1 = this\<lparr>owner :=
                            (case init_owner args of
                               None \<Rightarrow> predecessorAccountId env
                             | Some given \<Rightarrow> given)\<rparr>;
                  this2 = this1\<lparr>tokenAccountId := token_account_id\<rparr>;
                  this3 = this2\<lparr>tgeTimestampNs := init_tge_timestamp_ns args\<rparr>
              in case setInitialClaimConfig this3 (init_initial_claim_basis_points args)
                        (init_initial_claim_available_timestamp_ns args) of
                   (this4, Inl e) \<Rightarrow> (this4, Inl e)
                 | (this4, Inr u) \<Rightarrow>
                    (case setGroupsInternal this4 (init_groups args) of
                       (this5, Inl e) \<Rightarrow> (this5, Inl e)
                     | (this5, Inr u') \<Rightarrow> (this5, Inr Void)))))"

definition configure_groups :: "InvestorVesting \<Rightarrow> env \<Rightarrow> GroupConfigInput list \<Rightarrow> outcome" where
  "configure_groups this env groups' =
    call_decorator False False this env
    (if predecessorAccountId env \<noteq> owner this then (this, Inl OnlyOwner)
     else
       (case setGroupsInternal this groups' of
          (this1, Inl e) \<Rightarrow> (this1, Inl e)
        | (this1, Inr u) \<Rightarrow> (this1, Inr Void)))"

text \<open>\<^verbatim>\<open>configure_initial_claim\<close> takes its two optional fields; the argument object itself
  is taken to be present.\<close>

definition configure_initial_claim :: "InvestorVesting \<Rightarrow> env \<Rightarrow> decstr \<Rightarrow> decstr \<Rightarrow> outcome" where
  "configure_initial_claim this env initial_claim_basis_points initial_claim_available_timestamp_ns =
    call_decorator False False this env
    (if predecessorAccountId env \<noteq> owner this then (this, Inl OnlyOwner)
     else if initial_claim_basis_points = Undefined
             \<and> initial_claim_available_timestamp_ns = Undefined
       then (this, Inl InitialClaimParamRequired)
     else
       (case setInitialClaimConfig this initial_claim_basis_points
                initial_claim_available_timestamp_ns of
          (this1, Inl e) \<Rightarrow> (this1, Inl e)
        | (this1, Inr u) \<Rightarrow> (this1, Inr Void)))"

subsection \<open>Investor ledger\<close>

text \<open>The body of the loop of \<^verbatim>\<open>upsert_investors\<close>, on the set \<^verbatim>\<open>seenAccounts\<close> and the
  map \<^verbatim>\<open>this.investors\<close>; \<open>gm\<close> is \<^verbatim>\<open>this.groups\<close>, which the loop only reads.\<close>

definition upsertEntry ::
  "(string \<rightharpoonup> GroupConfigStored) \<Rightarrow> string set \<Rightarrow> (string \<rightharpoonup> InvestorRecord)
    \<Rightarrow> InvestorInput \<Rightarrow> error + (string set \<times> (string \<rightharpoonup> InvestorRecord))" where
  "upsertEntry gm seenAccounts ledger entry =
    (if falsy_id (account_id entry) \<or> falsy_id (group_id entry) \<or> falsy (amount entry)
       then Inl InvestorFieldsRequired
     else
       (case (account_id entry, group_id entry) of
          (Some acc, Some gid) \<Rightarrow>
            if acc \<in> seenAccounts then Inl (DuplicateInvestor acc)
            else
              (case gm gid of
                 None \<Rightarrow> Inl (UnknownGroup gid)
               | Some grp \<Rightarrow>
                  (case BigInt (amount entry) of
                     Inl e \<Rightarrow> Inl e
                   | Inr amount' \<Rightarrow>
                      if amount' \<le> 0 then Inl AmountNotPositive
                      else
                        (case ledger acc of
                           Some current \<Rightarrow>
                             (let alreadyClaimed = claimed current
                              in if amount' < alreadyClaimed
                                   then Inl (AllocationBelowClaimed acc)
                                 else Inr (insert acc seenAccounts,
                                           ledger(acc \<mapsto> \<lparr> groupId = gid,
                                                         totalAllocation = amount',
                                                         claimed = alreadyClaimed \<rparr>)))
                         | None \<Rightarrow>
                             Inr (insert acc seenAccounts,
                                  ledger(acc \<mapsto> \<lparr> groupId = gid,
                                                totalAllocation = amount',
                                                claimed = 0 \<rparr>)))))
        | _ \<Rightarrow> Inl InvestorFieldsRequired))"

fun upsertLoop ::
  "(string \<rightharpoonup> GroupConfigStored) \<Rightarrow> string set \<Rightarrow> (string \<rightharpoonup> InvestorRecord)
    \<Rightarrow> InvestorInput list \<Rightarrow> (string \<rightharpoonup> InvestorRecord) \<times> (error + unit)" where
  "upsertLoop gm seenAccounts ledger [] = (ledger, Inr ())"
| "upsertLoop gm seenAccounts ledger (entry # rest) =
    (case upsertEntry gm seenAccounts ledger entry of
       Inl e \<Rightarrow> (ledger, Inl e)
     | Inr (seenAccounts', ledger') \<Rightarrow> upsertLoop gm seenAccounts' ledger' rest)"

definition upsert_investors :: "InvestorVesting \<Rightarrow> env \<Rightarrow> InvestorInput list \<Rightarrow> outcome" where
  "upsert_investors this env investors' =
    call_decorator False False this env
    (if predecessorAccountId env \<noteq> owner this then (this, Inl OnlyOwner)
     else if investors' = [] then (this, Inl InvestorsRequired)
     else
       (case upsertLoop (groups this) {} (investors this) investors' of
          (ledger, Inl e) \<Rightarrow> (this\<lparr>investors := ledger\<rparr>, Inl e)
        | (ledger, Inr u) \<Rightarrow> (this\<lparr>investors := ledger\<rparr>, Inr Void)))"

subsection \<open>Claim, withdrawal and their resolution\<close>

definition claim :: "InvestorVesting \<Rightarrow> env \<Rightarrow> string option \<Rightarrow> outcome" where
  "claim this env account_id' =
    call_decorator False True this env
    (if attachedDeposit env \<noteq> ONE_YOCTO then (this, Inl OneYoctoRequired)
     else
       (let claimant = (case account_id' of None \<Rightarrow> predecessorAccountId env | Some a \<Rightarrow> a);
            isSelfClaim = (claimant = predecessorAccountId env)
        in if \<not> isSelfClaim \<and> predecessorAccountId env \<noteq> owner this
             then (this, Inl OnlyOwnerOnBehalf)
           else
             (case investors this claimant of
                None \<Rightarrow> (this, Inl NoAllocation)
              | Some record' \<Rightarrow>
                 (case computeClaimable this claimant (int (blockTimestamp env)) of
                    Inl e \<Rightarrow> (this, Inl e)
                  | Inr claimable \<Rightarrow>
                     if claimable \<le> 0 then (this, Inl NothingToClaim)
                     else if claimable > poolBalance this
                       then (this, Inl InsufficientPoolBalance)
                     else
                       (let this1 = this\<lparr>investors := (investors this)
                                     (claimant \<mapsto> record'\<lparr>claimed := claimed record' + claimable\<rparr>)\<rparr>;
                            this2 = this1\<lparr>totalClaimed := totalClaimed this1 + claimable\<rparr>;
                            this3 = this2\<lparr>poolBalance := poolBalance this2 - claimable\<rparr>
                        in (this3,
                            Inr (Transfer claimant (Num claimable) ''vesting-claim''
                                   (on_claim_complete_args claimant (Num claimable)))))))))"

definition withdraw_unallocated ::
  "InvestorVesting \<Rightarrow> env \<Rightarrow> decstr \<Rightarrow> string option \<Rightarrow> string option \<Rightarrow> outcome" where
  "withdraw_unallocated this env amount' recipient memo =
    call_decorator False True this env
    (if predecessorAccountId env \<noteq> owner this then (this, Inl OnlyOwner)
     else if attachedDeposit env \<noteq> ONE_YOCTO then (this, Inl OneYoctoRequired)
     else if falsy amount' then (this, Inl AmountRequired)
     else
       (case BigInt amount' of
          Inl e \<Rightarrow> (this, Inl e)
        | Inr withdrawal \<Rightarrow>
           if withdrawal \<le> 0 then (this, Inl WithdrawalNotPositive)
           else if withdrawal > poolBalance this then (this, Inl WithdrawalExceedsPool)
           else
             (let target = (case recipient of None \<Rightarrow> owner this | Some r \<Rightarrow> r);
                  this1 = this\<lparr>poolBalance := poolBalance this - withdrawal\<rparr>;
                  this2 = this1\<lparr>totalWithdrawn := totalWithdrawn this1 + withdrawal\<rparr>
              in (this2,
                  Inr (Transfer target amount'
                         (case memo of None \<Rightarrow> ''vesting-withdrawal'' | Some m \<Rightarrow> m)
                         (on_withdraw_complete_args target amount'))))))"

definition ft_on_transfer :: "InvestorVesting \<Rightarrow> env \<Rightarrow> string \<Rightarrow> decstr \<Rightarrow> string \<Rightarrow> outcome" where
  "ft_on_transfer this env sender_id amount' msg =
    call_decorator False False this env
    (if predecessorAccountId env \<noteq> tokenAccountId this then (this, Inl OnlyTokenContract)
     else if falsy amount' then (this, Inl AmountRequired)
     else
       (case BigInt amount' of
          Inl e \<Rightarrow> (this, Inl e)
        | Inr deposit \<Rightarrow>
           if deposit \<le> 0 then (this, Inl DepositNotPositive)
           else
             (let this1 = this\<lparr>poolBalance := poolBalance this + deposit\<rparr>;
                  this2 = this1\<lparr>totalDeposited := totalDeposited this1 + deposit\<rparr>
              in (this2, Inr (Text ''0'')))))"

text \<open>
  The callbacks. When the transfer failed, \<^verbatim>\<open>near.promiseResult(0)\<close> raises and the
  \<^verbatim>\<open>catch\<close> block runs: it writes the reversal and then throws
  \<^verbatim>\<open>'Token transfer failed'\<close>.
\<close>

definition on_claim_complete :: "InvestorVesting \<Rightarrow> env \<Rightarrow> string \<Rightarrow> decstr \<Rightarrow> outcome" where
  "on_claim_complete this env account_id' amount' =
    call_decorator True False this env
    (if predecessorAccountId env \<noteq> currentAccountId env then (this, Inl OnlySelf)
     else if promiseSucceeded env then (this, Inr Void)
     else
       (case investors this account_id' of
          None \<Rightarrow> (this, Inl InvestorRecordMissing)
        | Some record' \<Rightarrow>
           (case BigInt amount' of
              Inl e \<Rightarrow> (this, Inl e)
            | Inr tokenAmount \<Rightarrow>
               (let this1 = this\<lparr>investors := (investors this)
                             (account_id' \<mapsto> record'\<lparr>claimed := claimed record' - tokenAmount\<rparr>)\<rparr>;
                    this2 = this1\<lparr>totalClaimed := totalClaimed this1 - tokenAmount\<rparr>;
                    this3 = this2\<lparr>poolBalance := poolBalance this2 + tokenAmount\<rparr>
                in (this3, Inl TokenTransferFailed)))))"

definition on_withdraw_complete :: "InvestorVesting \<Rightarrow> env \<Rightarrow> string \<Rightarrow> decstr \<Rightarrow> outcome" where
  "on_withdraw_complete this env recipient amount' =
    call_decorator True False this env
    (if predecessorAccountId env \<noteq> currentAccountId env then (this, Inl OnlySelf)
     else if promiseSucceeded env then (this, Inr Void)
     else
       (case BigInt amount' of
          Inl e \<Rightarrow> (this, Inl e)
        | Inr tokenAmount \<Rightarrow>
           (let this1 = this\<lparr>poolBalance := poolBalance this + tokenAmount\<rparr>;
                this2 = this1\<lparr>totalWithdrawn := totalWithdrawn this1 - tokenAmount\<rparr>
            in (this2, Inl TokenTransferFailed))))"

subsection \<open>The contract as a transition system\<close>

datatype call =
    Init InitArgs
  | ConfigureGroups "GroupConfigInput list"
  | ConfigureInitialClaim decstr decstr
  | UpsertInvestors "InvestorInput list"
  | Claim "string option"
  | WithdrawUnallocated decstr "string option" "string option"
  | FtOnTransfer string decstr string
  | OnClaimComplete string decstr
  | OnWithdrawComplete string decstr

fun run :: "InvestorVesting \<Rightarrow> env \<Rightarrow> call \<Rightarrow> outcome" where
  "run this env (Init args) = init this env args"
| "run this env (ConfigureGroups gs) = configure_groups this env gs"
| "run this env (ConfigureInitialClaim bps ts) = configure_initial_claim this env bps ts"
| "run this env (UpsertInvestors es) = upsert_investors this env es"
| "run this env (Claim a) = claim this env a"
| "run this env (WithdrawUnallocated a r m) = withdraw_unallocated this env a r m"
| "run this env (FtOnTransfer sender a m) = ft_on_transfer this env sender a m"
| "run this env (OnClaimComplete a n) = on_claim_complete this env a n"
| "run this env (OnWithdrawComplete r n) = on_withdraw_complete this env r n"

text \<open>
  Modelled from the spec: the hosting environment, which is not part of the repository.
  Section 7 of the specification gives its atomic-call guarantee as a fact the contract
  relies on: a call that fails retains no mutation. So the state that the next call
  finds is the object a returning method left, and the state from before the call when
  the method threw.
\<close>

definition commit :: "InvestorVesting \<Rightarrow> outcome \<Rightarrow> InvestorVesting" where
  "commit before out = (case out of (this', Inr v) \<Rightarrow> this' | (this', Inl e) \<Rightarrow> before)"

definition step :: "InvestorVesting \<Rightarrow> env \<Rightarrow> call \<Rightarrow> InvestorVesting" where
  "step this env c = commit this (run this env c)"

text \<open>The observable states: those between calls, from the freshly constructed contract
  on, under any callers, deposits, timestamps, promise results and arguments. The host
  also refuses every other method before \<^verbatim>\<open>init\<close> has run (\<^verbatim>\<open>requireInit\<close>) and a
  second \<^verbatim>\<open>init\<close> once a state is stored; both refusals are left out, so the states
  here include all the states of the deployed contract.\<close>

inductive reachable :: "InvestorVesting \<Rightarrow> bool" where
  reachable_fresh: "reachable fresh"
| reachable_step: "reachable this \<Longrightarrow> reachable (step this env c)"

section \<open>Properties: vocabulary\<close>

text \<open>The two invariants of the specification (sections 3 and 8).\<close>

definition ledger_ok :: "(string \<rightharpoonup> InvestorRecord) \<Rightarrow> bool" where
  "ledger_ok ledger =
    (\<forall>acc r. ledger acc = Some r \<longrightarrow> 0 \<le> claimed r \<and> claimed r \<le> totalAllocation r)"

definition pool_ok :: "InvestorVesting \<Rightarrow> bool" where
  "pool_ok this =
    (poolBalance this = totalDeposited this - totalClaimed this - totalWithdrawn this)"

text \<open>What the guards of the configuration methods keep true of the stored configuration
  and of the registry.\<close>

definition config_ok :: "InvestorVesting \<Rightarrow> bool" where
  "config_ok this =
    (0 \<le> initialClaimBasisPoints this \<and> initialClaimBasisPoints this \<le> 10000
     \<and> 0 \<le> initialClaimAvailableTimestampNs this
     \<and> (\<forall>gid grp. groups this gid = Some grp \<longrightarrow>
            0 \<le> cliffDurationNs grp \<and> 0 \<le> vestingDurationNs grp
            \<and> 0 \<le> initialUnlockBasisPoints grp \<and> initialUnlockBasisPoints grp \<le> 10000))"

definition registry_ok :: "(string \<rightharpoonup> GroupConfigStored) \<Rightarrow> bool" where
  "registry_ok gm =
    (\<forall>gid grp. gm gid = Some grp \<longrightarrow>
       0 \<le> cliffDurationNs grp \<and> 0 \<le> vestingDurationNs grp
       \<and> 0 \<le> initialUnlockBasisPoints grp \<and> initialUnlockBasisPoints grp \<le> 10000)"

text \<open>A capped basis-point share, the shape of \<^verbatim>\<open>initialPortion\<close> and
  \<^verbatim>\<open>postCliffPortion\<close>; used to state intermediate lemmas only.\<close>

definition portion :: "int \<Rightarrow> int \<Rightarrow> int \<Rightarrow> int" where
  "portion cap total' bps = min cap ((total' * bps) sdiv 10000)"

text \<open>
  The validation failures that the specification lists for the two batch operations
  (sections 4.2 and 4.3), in its words: for a group entry a missing id, a negative
  cliff or vesting duration, basis points outside [0,10000]; for an investor entry a
  missing field, an unknown group, a non-positive amount, an amount below what the
  account has already claimed; for either list a repeated key.
\<close>

definition group_entry_invalid :: "GroupConfigInput \<Rightarrow> bool" where
  "group_entry_invalid g =
    (falsy_id (id_field g)
     \<or> (case BigInt (cliff_duration_ns g) of Inr cliff \<Rightarrow> cliff < 0 | Inl e \<Rightarrow> False)
     \<or> (case BigInt (vesting_duration_ns g) of Inr vesting \<Rightarrow> vesting < 0 | Inl e \<Rightarrow> False)
     \<or> (case BigInt (nullish (initial_unlock_basis_points g) (Num 0)) of
           Inr bps \<Rightarrow> bps < 0 \<or> 10000 < bps | Inl e \<Rightarrow> False))"

definition groups_input_invalid :: "GroupConfigInput list \<Rightarrow> bool" where
  "groups_input_invalid gs =
    ((\<exists>g \<in> set gs. group_entry_invalid g) \<or> \<not> distinct (map id_field gs))"

definition investor_entry_invalid :: "InvestorVesting \<Rightarrow> InvestorInput \<Rightarrow> bool" where
  "investor_entry_invalid this entry =
    (falsy_id (account_id entry) \<or> falsy_id (group_id entry) \<or> falsy (amount entry)
     \<or> (case group_id entry of Some gid \<Rightarrow> groups this gid = None | None \<Rightarrow> False)
     \<or> (case BigInt (amount entry) of
           Inr amount' \<Rightarrow>
             amount' \<le> 0
             \<or> (case account_id entry of
                   Some acc \<Rightarrow>
                     (case investors this acc of
                        Some current \<Rightarrow> amount' < claimed current
                      | None \<Rightarrow> False)
                 | None \<Rightarrow> False)
         | Inl e \<Rightarrow> False))"

definition investors_input_invalid :: "InvestorVesting \<Rightarrow> InvestorInput list \<Rightarrow> bool" where
  "investors_input_invalid this es =
    ((\<exists>entry \<in> set es. investor_entry_invalid this entry) \<or> \<not> distinct (map account_id es))"

text \<open>
  A small deployment used to evaluate the contract: owner \<open>root\<close>, token contract
  \<open>token\<close>, one group \<open>seed\<close> with no cliff and 100 time units of vesting from the
  start at time 10, a global initial claim of 50 percent that opens at time 1000, one
  investor \<open>alice\<close> with an allocation of 10000, and a pool funded with 10000.
\<close>

definition demo_env :: "string \<Rightarrow> nat \<Rightarrow> bool \<Rightarrow> env" where
  "demo_env caller now ok =
    \<lparr> predecessorAccountId = caller, currentAccountId = ''vesting'', attachedDeposit = 0,
      blockTimestamp = now, promiseSucceeded = ok \<rparr>"

definition demo_pay :: "string \<Rightarrow> nat \<Rightarrow> env" where
  "demo_pay caller now =
    \<lparr> predecessorAccountId = caller, currentAccountId = ''vesting'', attachedDeposit = 1,
      blockTimestamp = now, promiseSucceeded = True \<rparr>"

definition demo_init :: InitArgs where
  "demo_init =
    \<lparr> init_owner = Some ''root'', init_token_account_id = Some ''token'',
      init_tge_timestamp_ns = Num 10,
      init_groups = [\<lparr> id_field = Some ''seed'', cliff_duration_ns = Num 0,
                       vesting_duration_ns = Num 100, initial_unlock_basis_points = Undefined \<rparr>],
      init_initial_claim_basis_points = Num 5000,
      init_initial_claim_available_timestamp_ns = Num 1000 \<rparr>"

definition demo_funded :: InvestorVesting where
  "demo_funded =
    step (step (step fresh (demo_env ''root'' 0 True) (Init demo_init))
               (demo_env ''root'' 0 True)
               (UpsertInvestors [\<lparr> account_id = Some ''alice'', group_id = Some ''seed'',
                                    amount = Num 10000 \<rparr>]))
         (demo_env ''token'' 0 True) (FtOnTransfer ''root'' (Num 10000) [])"

definition demo_record :: "int \<Rightarrow> InvestorRecord" where
  "demo_record c = \<lparr> groupId = ''seed'', totalAllocation = 10000, claimed = c \<rparr>"

definition demo_group :: GroupConfigStored where
  "demo_group = \<lparr> cliffDurationNs = 0, vestingDurationNs = 100, initialUnlockBasisPoints = 0 \<rparr>"

definition demo_state :: "int \<Rightarrow> int \<Rightarrow> int \<Rightarrow> int \<Rightarrow> InvestorVesting" where
  "demo_state c tc tw pb =
    \<lparr> owner = ''root'', tokenAccountId = ''token'', tgeTimestampNs = Num 10,
      initialClaimBasisPoints = 5000, initialClaimAvailableTimestampNs = 1000,
      totalDeposited = 10000, totalClaimed = tc, totalWithdrawn = tw, poolBalance = pb,
      groups = [''seed'' \<mapsto> demo_group],
      investors = [''alice'' \<mapsto> demo_record c] \<rparr>"

section \<open>Arithmetic of the calculator\<close>

lemma sdiv_nonneg_eq_div: "0 \<le> a \<Longrightarrow> 0 < b \<Longrightarrow> (a::int) sdiv b = a div b"
  by (simp add: signed_divide_int_def sgn_if)

lemma portion_bounds:
  assumes "0 \<le> cap" "0 \<le> total'" "0 \<le> bps"
  shows "0 \<le> portion cap total' bps" and "portion cap total' bps \<le> cap"
proof -
  have "0 \<le> total' * bps" using assms by simp
  then have "0 \<le> (total' * bps) sdiv 10000"
    by (simp add: sdiv_nonneg_eq_div pos_imp_zdiv_nonneg_iff)
  then show "0 \<le> portion cap total' bps" using assms(1) by (simp add: portion_def)
  show "portion cap total' bps \<le> cap" by (simp add: portion_def)
qed

lemma linear_share_bounds:
  assumes "0 \<le> (b::int)" "0 \<le> e" "e < v"
  shows "0 \<le> (b * e) sdiv v" and "(b * e) sdiv v \<le> b"
proof -
  have v: "0 < v" using assms by simp
  have be: "0 \<le> b * e" using assms by simp
  have eq: "(b * e) sdiv v = (b * e) div v" using be v by (rule sdiv_nonneg_eq_div)
  show "0 \<le> (b * e) sdiv v" using be v by (simp add: eq pos_imp_zdiv_nonneg_iff)
  have "b * e \<le> b * v" using assms by (simp add: mult_left_mono)
  then have "(b * e) div v \<le> (b * v) div v" using v by (rule zdiv_mono1)
  also have "(b * v) div v = b" using v by simp
  finally show "(b * e) sdiv v \<le> b" by (simp add: eq)
qed

text \<open>The calculator with its caps written as minima.\<close>

lemma computeVestedAmount_unfold:
  assumes "BigInt (tgeTimestampNs this) = Inr tge"
  shows "computeVestedAmount this total' grp now =
    Inr (let ip = portion total' total' (initialClaimBasisPoints this);
             c = (if now \<ge> initialClaimAvailableTimestampNs this then ip else 0);
             pc = portion (total' - ip) total' (initialUnlockBasisPoints grp);
             lb = total' - ip - pc;
             e = now - (tge + cliffDurationNs grp);
             v = vestingDurationNs grp
         in if now < tge + cliffDurationNs grp then min total' c
            else if v = 0 then total'
            else if e \<ge> v then total'
            else min total' (c + pc + (lb * e) sdiv v))"
proof -
  have capmin: "\<And>a b::int. (if a > b then b else a) = min b a" by (simp add: min_def)
  show ?thesis
    unfolding computeVestedAmount_def BASIS_POINTS_DENOMINATOR_def Let_def capmin portion_def
    by (simp add: assms)
qed

text \<open>With a non-negative allocation and non-negative basis points no cap is ever hit.\<close>

lemma computeVestedAmount_uncapped:
  assumes tge: "BigInt (tgeTimestampNs this) = Inr tge"
    and tot: "0 \<le> total'"
    and ib: "0 \<le> initialClaimBasisPoints this"
    and ub: "0 \<le> initialUnlockBasisPoints grp"
  shows "computeVestedAmount this total' grp now =
    Inr (let ip = portion total' total' (initialClaimBasisPoints this);
             c = (if now \<ge> initialClaimAvailableTimestampNs this then ip else 0);
             pc = portion (total' - ip) total' (initialUnlockBasisPoints grp);
             lb = total' - ip - pc;
             e = now - (tge + cliffDurationNs grp);
             v = vestingDurationNs grp
         in if now < tge + cliffDurationNs grp then c
            else if v = 0 then total'
            else if e \<ge> v then total'
            else c + pc + (lb * e) sdiv v)"
    and "\<exists>w. computeVestedAmount this total' grp now = Inr w \<and> 0 \<le> w"
proof -
  define ip where "ip = portion total' total' (initialClaimBasisPoints this)"
  define c where "c = (if now \<ge> initialClaimAvailableTimestampNs this then ip else 0)"
  define pc where "pc = portion (total' - ip) total' (initialUnlockBasisPoints grp)"
  define lb where "lb = total' - ip - pc"
  define e where "e = now - (tge + cliffDurationNs grp)"
  define v where "v = vestingDurationNs grp"
  have ip: "0 \<le> ip" "ip \<le> total'" using portion_bounds[OF tot tot ib] by (simp_all add: ip_def)
  then have pc: "0 \<le> pc" "pc \<le> total' - ip"
    using portion_bounds[of "total' - ip" total', OF _ tot ub] by (simp_all add: pc_def)
  have lb: "0 \<le> lb" using pc by (simp add: lb_def)
  have c: "0 \<le> c" "c \<le> ip" using ip by (simp_all add: c_def)
  have code: "computeVestedAmount this total' grp now =
      Inr (if now < tge + cliffDurationNs grp then min total' c
           else if v = 0 then total'
           else if e \<ge> v then total'
           else min total' (c + pc + (lb * e) sdiv v))"
    unfolding computeVestedAmount_unfold[OF tge] Let_def ip_def c_def pc_def lb_def e_def v_def
    by (rule refl)
  have cap1: "min total' c = c" using c ip by simp
  have cap2: "min total' (c + pc + (lb * e) sdiv v) = c + pc + (lb * e) sdiv v"
      and lin0: "0 \<le> (lb * e) sdiv v"
    if "\<not> now < tge + cliffDurationNs grp" "\<not> e \<ge> v"
  proof -
    have "0 \<le> e" "e < v" using that by (simp_all add: e_def)
    from linear_share_bounds[OF lb this] show "0 \<le> (lb * e) sdiv v"
      and "min total' (c + pc + (lb * e) sdiv v) = c + pc + (lb * e) sdiv v"
      using c by (simp_all add: lb_def)
  qed
  have uncapped: "computeVestedAmount this total' grp now =
      Inr (if now < tge + cliffDurationNs grp then c
           else if v = 0 then total'
           else if e \<ge> v then total'
           else c + pc + (lb * e) sdiv v)"
    unfolding code using cap1 cap2 by simp
  then show "computeVestedAmount this total' grp now =
    Inr (let ip = portion total' total' (initialClaimBasisPoints this);
             c = (if now \<ge> initialClaimAvailableTimestampNs this then ip else 0);
             pc = portion (total' - ip) total' (initialUnlockBasisPoints grp);
             lb = total' - ip - pc;
             e = now - (tge + cliffDurationNs grp);
             v = vestingDurationNs grp
         in if now < tge + cliffDurationNs grp then c
            else if v = 0 then total'
            else if e \<ge> v then total'
            else c + pc + (lb * e) sdiv v)"
    unfolding Let_def ip_def c_def pc_def lb_def e_def v_def .
  show "\<exists>w. computeVestedAmount this total' grp now = Inr w \<and> 0 \<le> w"
    unfolding uncapped using c pc tot lin0 by simp
qed

lemma computeVestedAmount_le_total:
  "computeVestedAmount this total' grp now = Inr v \<Longrightarrow> v \<le> total'"
  by (auto simp: computeVestedAmount_def Let_def split: sum.splits if_splits)

section \<open>The example deployment, evaluated\<close>

lemma demo_funded_eq: "demo_funded = demo_state 0 0 0 10000"
  by (simp add: demo_funded_def step_def commit_def init_def demo_init_def demo_env_def demo_pay_def fresh_def
      setInitialClaimConfig_def setGroupsInternal_def setGroupEntry_def upsert_investors_def call_decorator_def
      upsertEntry_def ft_on_transfer_def BASIS_POINTS_DENOMINATOR_def Let_def demo_state_def
      demo_record_def demo_group_def)

lemma demo_claim:
  "run (demo_state 0 0 0 10000) (demo_pay ''alice'' 60) (Claim None) =
   (demo_state 2500 2500 0 7500,
    Inr (Transfer ''alice'' (Num 2500) ''vesting-claim''
           (on_claim_complete_args ''alice'' (Num 2500))))"
  by (simp add: claim_def call_decorator_def computeClaimable_def computeVestedAmount_def ONE_YOCTO_def Let_def
      demo_env_def demo_pay_def demo_state_def demo_record_def demo_group_def BASIS_POINTS_DENOMINATOR_def
      signed_divide_int_def)

lemma demo_state_reachable: "reachable (demo_state 0 0 0 10000)"
  unfolding demo_funded_eq[symmetric] demo_funded_def
  by (intro reachable_step reachable_fresh)

lemma demo_claim_step:
  "step (demo_state 0 0 0 10000) (demo_pay ''alice'' 60) (Claim None)
    = demo_state 2500 2500 0 7500"
  unfolding step_def demo_claim by (simp add: commit_def)

lemma demo_claimed_reachable: "reachable (demo_state 2500 2500 0 7500)"
proof -
  have "reachable (step (demo_state 0 0 0 10000) (demo_pay ''alice'' 60) (Claim None))"
    using demo_state_reachable by (rule reachable_step)
  then show ?thesis by (simp only: demo_claim_step)
qed

section \<open>The vested amount\<close>

text \<open>
  C1, as the specification states it, fails. Section 4.1 sets the initial portion to 0
  before the global timestamp and takes the remainder, the post-cliff portion and the
  linear base from that value. The code computes the initial portion always and only
  withholds it from the sum. In the example deployment at time 60 (after the cliff,
  before the global timestamp 1000) the code vests 2500 of 10000 and the reference
  definition 5000.
\<close>

theorem vestedAmount_spec_counterexample:
  "computeVestedAmount (demo_state 0 0 0 10000) 10000 demo_group 60 = Inr 2500
   \<and> vestedAmount_spec 10000 demo_group 5000 1000 10 60 = 5000"
  by (simp add: computeVestedAmount_def vestedAmount_spec_def demo_state_def demo_group_def
      BASIS_POINTS_DENOMINATOR_def Let_def signed_divide_int_def)

text \<open>
  C1, amended: for a non-negative allocation and non-negative basis points, with a
  numeric start timestamp, \<^verbatim>\<open>computeVestedAmount\<close> is the formula of section 4.1 with
  one change: the global timestamp gates only the initial portion's contribution to the
  result (\<open>counted\<close>); \<open>remainingAfterInitial\<close>, \<open>postCliffPortion\<close> and \<open>linearBase\<close>
  are always taken from the ungated \<open>initialPortion\<close>. Division truncates toward zero.
\<close>

theorem computeVestedAmount_formula:
  assumes "BigInt (tgeTimestampNs this) = Inr tge"
    and "0 \<le> total'"
    and "0 \<le> initialClaimBasisPoints this"
    and "0 \<le> initialUnlockBasisPoints grp"
  shows "computeVestedAmount this total' grp now =
    Inr (let initialPortion = min total' ((total' * initialClaimBasisPoints this) sdiv 10000);
             counted = (if now \<ge> initialClaimAvailableTimestampNs this then initialPortion else 0);
             remainingAfterInitial = total' - initialPortion;
             postCliffPortion =
               min remainingAfterInitial ((total' * initialUnlockBasisPoints grp) sdiv 10000);
             linearBase = total' - initialPortion - postCliffPortion;
             elapsed = now - (tge + cliffDurationNs grp)
         in if now < tge + cliffDurationNs grp then counted
            else if vestingDurationNs grp = 0 then total'
            else if elapsed \<ge> vestingDurationNs grp then total'
            else counted + postCliffPortion + (linearBase * elapsed) sdiv vestingDurationNs grp)"
  unfolding computeVestedAmount_uncapped(1)[OF assms] Let_def portion_def by (rule refl)

text \<open>The amended C1 at the example: the hypotheses hold there and the formula gives 2500.\<close>

theorem computeVestedAmount_formula_witness:
  "BigInt (tgeTimestampNs (demo_state 0 0 0 10000)) = Inr 10
   \<and> (0::int) \<le> 10000
   \<and> 0 \<le> initialClaimBasisPoints (demo_state 0 0 0 10000)
   \<and> 0 \<le> initialUnlockBasisPoints demo_group
   \<and> computeVestedAmount (demo_state 0 0 0 10000) 10000 demo_group 60 = Inr 2500"
proof -
  have h1: "BigInt (tgeTimestampNs (demo_state 0 0 0 10000)) = Inr 10"
    by (simp add: demo_state_def)
  have h2: "(0::int) \<le> 10000" by simp
  have h3: "0 \<le> initialClaimBasisPoints (demo_state 0 0 0 10000)" by (simp add: demo_state_def)
  have h4: "0 \<le> initialUnlockBasisPoints demo_group" by (simp add: demo_group_def)
  have "computeVestedAmount (demo_state 0 0 0 10000) 10000 demo_group 60 = Inr 2500"
    unfolding computeVestedAmount_formula[OF h1 h2 h3 h4]
    by (simp add: demo_state_def demo_group_def Let_def signed_divide_int_def)
  then show ?thesis using h1 h3 h4 by simp
qed

section \<open>The claimable amount\<close>

text \<open>
  C6: the claimable amount is 0 when the account has no record, 0 when the record's
  group is not in the registry, and otherwise, whenever the calculator returns the
  vested amount \<open>v\<close>, it is \<open>max 0 (v - claimed)\<close>.
\<close>

theorem computeClaimable_positive_part:
  "(investors this acc = None \<longrightarrow> computeClaimable this acc now = Inr 0)
   \<and> (\<forall>r. investors this acc = Some r \<longrightarrow> groups this (groupId r) = None
          \<longrightarrow> computeClaimable this acc now = Inr 0)
   \<and> (\<forall>r grp v. investors this acc = Some r \<longrightarrow> groups this (groupId r) = Some grp
          \<longrightarrow> computeVestedAmount this (totalAllocation r) grp now = Inr v
          \<longrightarrow> computeClaimable this acc now = Inr (max 0 (v - claimed r)))"
proof (intro conjI allI impI)
  assume "investors this acc = None"
  then show "computeClaimable this acc now = Inr 0" by (simp add: computeClaimable_def)
next
  fix r assume "investors this acc = Some r" "groups this (groupId r) = None"
  then show "computeClaimable this acc now = Inr 0" by (simp add: computeClaimable_def)
next
  fix r grp v
  assume r: "investors this acc = Some r" and g: "groups this (groupId r) = Some grp"
    and v: "computeVestedAmount this (totalAllocation r) grp now = Inr v"
  have "v \<le> totalAllocation r" using v by (rule computeVestedAmount_le_total)
  then show "computeClaimable this acc now = Inr (max 0 (v - claimed r))"
    using r g v by (simp add: computeClaimable_def Let_def max_def)
qed

text \<open>C6 at the example: an unknown account, a record whose group was dropped from the
  registry, and \<open>alice\<close> at time 60 (vested 2500) before and after claiming 2500.\<close>

theorem computeClaimable_positive_part_witness:
  "investors (demo_state 0 0 0 10000) ''bob'' = None
   \<and> computeClaimable (demo_state 0 0 0 10000) ''bob'' 60 = Inr 0
   \<and> investors ((demo_state 0 0 0 10000)\<lparr>groups := Map.empty\<rparr>) ''alice'' = Some (demo_record 0)
   \<and> groups ((demo_state 0 0 0 10000)\<lparr>groups := Map.empty\<rparr>) (groupId (demo_record 0)) = None
   \<and> computeClaimable ((demo_state 0 0 0 10000)\<lparr>groups := Map.empty\<rparr>) ''alice'' 60 = Inr 0
   \<and> investors (demo_state 0 0 0 10000) ''alice'' = Some (demo_record 0)
   \<and> groups (demo_state 0 0 0 10000) (groupId (demo_record 0)) = Some demo_group
   \<and> computeVestedAmount (demo_state 0 0 0 10000) (totalAllocation (demo_record 0)) demo_group 60
       = Inr 2500
   \<and> computeClaimable (demo_state 0 0 0 10000) ''alice'' 60 = Inr 2500"
proof -
  let ?s = "demo_state 0 0 0 10000"
  let ?t = "?s\<lparr>groups := Map.empty\<rparr>"
  have a: "investors ?s ''bob'' = None" by (simp add: demo_state_def)
  have b1: "investors ?t ''alice'' = Some (demo_record 0)" by (simp add: demo_state_def)
  have b2: "groups ?t (groupId (demo_record 0)) = None" by simp
  have c1: "investors ?s ''alice'' = Some (demo_record 0)" by (simp add: demo_state_def)
  have c2: "groups ?s (groupId (demo_record 0)) = Some demo_group"
    by (simp add: demo_state_def demo_record_def)
  have c3: "computeVestedAmount ?s (totalAllocation (demo_record 0)) demo_group 60 = Inr 2500"
    by (simp add: computeVestedAmount_def demo_state_def demo_group_def demo_record_def
        BASIS_POINTS_DENOMINATOR_def Let_def signed_divide_int_def)
  have "computeClaimable ?s ''bob'' 60 = Inr 0"
    using computeClaimable_positive_part[of ?s "''bob''" 60] a by blast
  moreover have "computeClaimable ?t ''alice'' 60 = Inr 0"
    using computeClaimable_positive_part[of ?t "''alice''" 60] b1 b2 by blast
  moreover have "computeClaimable ?s ''alice'' 60 = Inr (max 0 (2500 - claimed (demo_record 0)))"
    using computeClaimable_positive_part[of ?s "''alice''" 60] c1 c2 c3 by blast
  then have "computeClaimable ?s ''alice'' 60 = Inr 2500" by (simp add: demo_record_def)
  ultimately show ?thesis using a b1 b2 c1 c2 c3 by simp
qed

section \<open>What each call leaves alone\<close>

lemma setGroupsInternal_other_fields:
  "setGroupsInternal this gs = (this', r) \<Longrightarrow>
     investors this' = investors this \<and> poolBalance this' = poolBalance this \<and>
     totalDeposited this' = totalDeposited this \<and> totalClaimed this' = totalClaimed this \<and>
     totalWithdrawn this' = totalWithdrawn this"
  by (auto simp: setGroupsInternal_def split: if_splits prod.splits)

lemma setInitialClaimConfig_other_fields:
  "setInitialClaimConfig this b t = (this', r) \<Longrightarrow>
     investors this' = investors this \<and> poolBalance this' = poolBalance this \<and>
     totalDeposited this' = totalDeposited this \<and> totalClaimed this' = totalClaimed this \<and>
     totalWithdrawn this' = totalWithdrawn this"
  by (auto simp: setInitialClaimConfig_def Let_def split: if_splits sum.splits)

lemma init_other_fields:
  "init this env args = (this', r) \<Longrightarrow>
     investors this' = investors this \<and> poolBalance this' = poolBalance this \<and>
     totalDeposited this' = totalDeposited this \<and> totalClaimed this' = totalClaimed this \<and>
     totalWithdrawn this' = totalWithdrawn this"
  by (auto simp: init_def Let_def split: if_splits option.splits prod.splits sum.splits
      dest!: setGroupsInternal_other_fields setInitialClaimConfig_other_fields)

lemma configure_groups_other_fields:
  "configure_groups this env gs = (this', r) \<Longrightarrow>
     investors this' = investors this \<and> poolBalance this' = poolBalance this \<and>
     totalDeposited this' = totalDeposited this \<and> totalClaimed this' = totalClaimed this \<and>
     totalWithdrawn this' = totalWithdrawn this"
  by (auto simp: configure_groups_def call_decorator_def split: if_splits prod.splits sum.splits
      dest!: setGroupsInternal_other_fields)

lemma configure_initial_claim_other_fields:
  "configure_initial_claim this env b t = (this', r) \<Longrightarrow>
     investors this' = investors this \<and> poolBalance this' = poolBalance this \<and>
     totalDeposited this' = totalDeposited this \<and> totalClaimed this' = totalClaimed this \<and>
     totalWithdrawn this' = totalWithdrawn this"
  by (auto simp: configure_initial_claim_def call_decorator_def split: if_splits prod.splits sum.splits
      dest!: setInitialClaimConfig_other_fields)

section \<open>The ledger invariant\<close>

lemma computeClaimable_positive:
  assumes "computeClaimable this acc now = Inr c" "0 < c" "investors this acc = Some r"
  shows "claimed r + c \<le> totalAllocation r"
  using assms
  by (auto simp: computeClaimable_def Let_def split: option.splits sum.splits if_splits
      dest: computeVestedAmount_le_total)

lemma upsertEntry_ledger_ok:
  "upsertEntry gm seen ledger entry = Inr (seen', ledger') \<Longrightarrow> ledger_ok ledger
    \<Longrightarrow> ledger_ok ledger'"
  by (auto simp: upsertEntry_def ledger_ok_def Let_def
      split: if_splits option.splits sum.splits prod.splits)

lemma upsertLoop_ledger_ok:
  "upsertLoop gm seen ledger es = (ledger', r) \<Longrightarrow> ledger_ok ledger \<Longrightarrow> ledger_ok ledger'"
proof (induction es arbitrary: seen ledger)
  case Nil
  then show ?case by simp
next
  case (Cons entry rest)
  show ?case
  proof (cases "upsertEntry gm seen ledger entry")
    case (Inl e)
    then show ?thesis using Cons.prems by simp
  next
    case (Inr p)
    obtain seen1 ledger1 where p: "p = (seen1, ledger1)" by (cases p)
    have "ledger_ok ledger1" using upsertEntry_ledger_ok Inr p Cons.prems(2) by blast
    moreover have "upsertLoop gm seen1 ledger1 rest = (ledger', r)"
      using Cons.prems(1) Inr p by simp
    ultimately show ?thesis by (rule Cons.IH[rotated])
  qed
qed

text \<open>What a claim that returns has done.\<close>

lemma claim_success:
  assumes "claim this env a = (this', Inr v)"
  shows "\<exists>claimant r c. investors this claimant = Some r
           \<and> computeClaimable this claimant (int (blockTimestamp env)) = Inr c
           \<and> 0 < c \<and> c \<le> poolBalance this
           \<and> this' = this\<lparr>investors := (investors this)(claimant \<mapsto> r\<lparr>claimed := claimed r + c\<rparr>),
                            totalClaimed := totalClaimed this + c,
                            poolBalance := poolBalance this - c\<rparr>
           \<and> v = Transfer claimant (Num c) ''vesting-claim''
                     (on_claim_complete_args claimant (Num c))"
  using assms
  by (simp add: claim_def call_decorator_def Let_def split: if_splits option.splits sum.splits) force+

lemma claim_ledger_ok:
  assumes "claim this env a = (this', Inr v)" "ledger_ok (investors this)"
  shows "ledger_ok (investors this')"
proof -
  obtain claimant r c where r: "investors this claimant = Some r"
    and c: "computeClaimable this claimant (int (blockTimestamp env)) = Inr c" "0 < c"
    and this': "investors this' = (investors this)(claimant \<mapsto> r\<lparr>claimed := claimed r + c\<rparr>)"
    using claim_success[OF assms(1)] by auto
  have "claimed r + c \<le> totalAllocation r" using computeClaimable_positive[OF c r] .
  moreover have "0 \<le> claimed r" using assms(2) r by (simp add: ledger_ok_def)
  ultimately show ?thesis using assms(2) c(2) unfolding this' ledger_ok_def by auto
qed

lemma run_ledger_ok:
  assumes "run this env c = (this', Inr v)" "ledger_ok (investors this)"
  shows "ledger_ok (investors this')"
proof (cases c)
  case (Init args)
  then show ?thesis using assms init_other_fields[of this env args this' "Inr v"] by simp
next
  case (ConfigureGroups gs)
  then show ?thesis using assms configure_groups_other_fields[of this env gs this' "Inr v"]
    by simp
next
  case (ConfigureInitialClaim b t)
  then show ?thesis
    using assms configure_initial_claim_other_fields[of this env b t this' "Inr v"] by simp
next
  case (UpsertInvestors es)
  then show ?thesis using assms
    by (auto simp: upsert_investors_def call_decorator_def split: if_splits prod.splits sum.splits
        dest: upsertLoop_ledger_ok)
next
  case (Claim a)
  then show ?thesis using assms by (auto dest: claim_ledger_ok)
next
  case (WithdrawUnallocated a r m)
  then show ?thesis using assms
    by (auto simp: withdraw_unallocated_def call_decorator_def Let_def split: if_splits sum.splits)
next
  case (FtOnTransfer s a m)
  then show ?thesis using assms
    by (auto simp: ft_on_transfer_def call_decorator_def Let_def split: if_splits sum.splits)
next
  case (OnClaimComplete a n)
  then show ?thesis using assms
    by (auto simp: on_claim_complete_def call_decorator_def Let_def split: if_splits sum.splits option.splits)
next
  case (OnWithdrawComplete r n)
  then show ?thesis using assms
    by (auto simp: on_withdraw_complete_def call_decorator_def Let_def split: if_splits sum.splits)
qed

lemma step_ledger_ok:
  "ledger_ok (investors this) \<Longrightarrow> ledger_ok (investors (step this env c))"
  by (cases "run this env c") (auto simp: step_def commit_def split: sum.splits dest: run_ledger_ok)

lemma reachable_ledger_ok: "reachable this \<Longrightarrow> ledger_ok (investors this)"
proof (induction rule: reachable.induct)
  case reachable_fresh
  show ?case by (simp add: fresh_def ledger_ok_def)
next
  case (reachable_step this env c)
  then show ?case by (simp add: step_ledger_ok)
qed

text \<open>
  C2: in every state reachable from the freshly constructed contract by any sequence of
  calls (with any callers, deposits, timestamps, promise results and arguments), every
  investor record has \<open>0 \<le> claimed \<le> totalAllocation\<close>.
\<close>

theorem claimed_within_allocation:
  assumes "reachable this" and "investors this acc = Some r"
  shows "0 \<le> claimed r \<and> claimed r \<le> totalAllocation r"
  using reachable_ledger_ok[OF assms(1)] assms(2) by (simp add: ledger_ok_def)

text \<open>C2 at the example, after \<open>alice\<close> has claimed 2500 of her 10000.\<close>

theorem claimed_within_allocation_witness:
  "reachable (demo_state 2500 2500 0 7500)
   \<and> investors (demo_state 2500 2500 0 7500) ''alice'' = Some (demo_record 2500)
   \<and> 0 \<le> claimed (demo_record 2500)
   \<and> claimed (demo_record 2500) \<le> totalAllocation (demo_record 2500)"
proof -
  have i: "investors (demo_state 2500 2500 0 7500) ''alice'' = Some (demo_record 2500)"
    by (simp add: demo_state_def)
  show ?thesis
    using claimed_within_allocation[OF demo_claimed_reachable i] demo_claimed_reachable i
    by simp
qed

section \<open>The pool invariant\<close>

text \<open>Every method keeps the pool equation, at a return and at a throw alike.\<close>

lemma run_pool_ok:
  assumes "run this env c = (this', r)" "pool_ok this"
  shows "pool_ok this'"
proof (cases c)
  case (Init args)
  then show ?thesis using assms init_other_fields[of this env args this' r]
    by (simp add: pool_ok_def)
next
  case (ConfigureGroups gs)
  then show ?thesis using assms configure_groups_other_fields[of this env gs this' r]
    by (simp add: pool_ok_def)
next
  case (ConfigureInitialClaim b t)
  then show ?thesis using assms configure_initial_claim_other_fields[of this env b t this' r]
    by (simp add: pool_ok_def)
next
  case (UpsertInvestors es)
  then show ?thesis using assms
    by (auto simp: upsert_investors_def call_decorator_def pool_ok_def split: if_splits prod.splits sum.splits)
next
  case (Claim a)
  then show ?thesis using assms
    by (auto simp: claim_def call_decorator_def Let_def pool_ok_def split: if_splits option.splits sum.splits)
next
  case (WithdrawUnallocated a r m)
  then show ?thesis using assms
    by (auto simp: withdraw_unallocated_def call_decorator_def Let_def pool_ok_def split: if_splits sum.splits)
next
  case (FtOnTransfer s a m)
  then show ?thesis using assms
    by (auto simp: ft_on_transfer_def call_decorator_def Let_def pool_ok_def split: if_splits sum.splits)
next
  case (OnClaimComplete a n)
  then show ?thesis using assms
    by (auto simp: on_claim_complete_def call_decorator_def Let_def pool_ok_def
        split: if_splits sum.splits option.splits)
next
  case (OnWithdrawComplete r n)
  then show ?thesis using assms
    by (auto simp: on_withdraw_complete_def call_decorator_def Let_def pool_ok_def split: if_splits sum.splits)
qed

lemma step_pool_ok: "pool_ok this \<Longrightarrow> pool_ok (step this env c)"
  by (cases "run this env c") (auto simp: step_def commit_def split: sum.splits dest: run_pool_ok)

lemma reachable_pool_ok: "reachable this \<Longrightarrow> pool_ok this"
proof (induction rule: reachable.induct)
  case reachable_fresh
  show ?case by (simp add: fresh_def pool_ok_def)
next
  case (reachable_step this env c)
  then show ?case by (simp add: step_pool_ok)
qed

text \<open>
  C3: in every state reachable by any sequence of calls the pool counters satisfy
  \<open>poolBalance = totalDeposited - totalClaimed - totalWithdrawn\<close>.
\<close>

theorem pool_balance_reconciles:
  assumes "reachable this"
  shows "poolBalance this = totalDeposited this - totalClaimed this - totalWithdrawn this"
  using reachable_pool_ok[OF assms] by (simp add: pool_ok_def)

text \<open>C3 at the example, after a deposit of 10000 and a claim of 2500.\<close>

theorem pool_balance_reconciles_witness:
  "reachable (demo_state 2500 2500 0 7500)
   \<and> poolBalance (demo_state 2500 2500 0 7500) = 7500
   \<and> totalDeposited (demo_state 2500 2500 0 7500) - totalClaimed (demo_state 2500 2500 0 7500)
       - totalWithdrawn (demo_state 2500 2500 0 7500) = 7500"
proof -
  have p: "poolBalance (demo_state 2500 2500 0 7500) = 7500" by (simp add: demo_state_def)
  show ?thesis
    using pool_balance_reconciles[OF demo_claimed_reachable] demo_claimed_reachable p by simp
qed

section \<open>The configuration invariant\<close>

lemma setGroupEntry_registry_ok:
  "setGroupEntry seen gm g = Inr (seen', gm') \<Longrightarrow> registry_ok gm \<Longrightarrow> registry_ok gm'"
  by (auto simp: setGroupEntry_def registry_ok_def BASIS_POINTS_DENOMINATOR_def
      split: option.splits if_splits sum.splits)

lemma setGroupsLoop_registry_ok:
  "setGroupsLoop seen gm gs = (gm', r) \<Longrightarrow> registry_ok gm \<Longrightarrow> registry_ok gm'"
proof (induction gs arbitrary: seen gm)
  case Nil
  then show ?case by simp
next
  case (Cons g rest)
  show ?case
  proof (cases "setGroupEntry seen gm g")
    case (Inl e)
    then show ?thesis using Cons.prems by simp
  next
    case (Inr p)
    obtain seen1 gm1 where p: "p = (seen1, gm1)" by (cases p)
    have "registry_ok gm1" using setGroupEntry_registry_ok Inr p Cons.prems(2) by blast
    moreover have "setGroupsLoop seen1 gm1 rest = (gm', r)" using Cons.prems(1) Inr p by simp
    ultimately show ?thesis by (rule Cons.IH[rotated])
  qed
qed

lemma setGroupsInternal_config_ok:
  "setGroupsInternal this gs = (this', r) \<Longrightarrow> config_ok this \<Longrightarrow> config_ok this'"
proof -
  assume a: "setGroupsInternal this gs = (this', r)" and ok: "config_ok this"
  show "config_ok this'"
  proof (cases "gs = []")
    case True
    then show ?thesis using a ok by (simp add: setGroupsInternal_def)
  next
    case False
    obtain gm r' where l: "setGroupsLoop {} Map.empty gs = (gm, r')"
      by (cases "setGroupsLoop {} Map.empty gs")
    have "registry_ok gm" using setGroupsLoop_registry_ok[OF l] by (simp add: registry_ok_def)
    moreover have "this' = this\<lparr>groups := gm\<rparr>" using a False l by (simp add: setGroupsInternal_def)
    ultimately show ?thesis using ok by (simp add: config_ok_def registry_ok_def)
  qed
qed

lemma setInitialClaimConfig_config_ok:
  "setInitialClaimConfig this b t = (this', r) \<Longrightarrow> config_ok this \<Longrightarrow> config_ok this'"
  by (auto simp: setInitialClaimConfig_def Let_def config_ok_def BASIS_POINTS_DENOMINATOR_def
      split: if_splits sum.splits)

lemma init_config_ok:
  assumes "init this env args = (this', r)" "config_ok this"
  shows "config_ok this'"
proof -
  have pre: "config_ok (this\<lparr>owner := x, tokenAccountId := y, tgeTimestampNs := z\<rparr>)" for x y z
    using assms(2) by (simp add: config_ok_def)
  show ?thesis
    using assms pre
    by (auto simp: init_def Let_def split: if_splits option.splits prod.splits sum.splits
        dest!: setInitialClaimConfig_config_ok setGroupsInternal_config_ok)
qed

lemma run_config_ok:
  assumes "run this env c = (this', r)" "config_ok this"
  shows "config_ok this'"
proof (cases c)
  case (Init args)
  then show ?thesis using assms by (auto dest: init_config_ok)
next
  case (ConfigureGroups gs)
  then show ?thesis using assms
    by (auto simp: configure_groups_def call_decorator_def split: if_splits prod.splits sum.splits
        dest: setGroupsInternal_config_ok)
next
  case (ConfigureInitialClaim b t)
  then show ?thesis using assms
    by (auto simp: configure_initial_claim_def call_decorator_def split: if_splits prod.splits sum.splits
        dest: setInitialClaimConfig_config_ok)
next
  case (UpsertInvestors es)
  then show ?thesis using assms
    by (auto simp: upsert_investors_def call_decorator_def config_ok_def split: if_splits prod.splits sum.splits)
next
  case (Claim a)
  then show ?thesis using assms
    by (auto simp: claim_def call_decorator_def Let_def config_ok_def split: if_splits option.splits sum.splits)
next
  case (WithdrawUnallocated a r m)
  then show ?thesis using assms
    by (auto simp: withdraw_unallocated_def call_decorator_def Let_def config_ok_def split: if_splits sum.splits)
next
  case (FtOnTransfer s a m)
  then show ?thesis using assms
    by (auto simp: ft_on_transfer_def call_decorator_def Let_def config_ok_def split: if_splits sum.splits)
next
  case (OnClaimComplete a n)
  then show ?thesis using assms
    by (auto simp: on_claim_complete_def call_decorator_def Let_def config_ok_def
        split: if_splits sum.splits option.splits)
next
  case (OnWithdrawComplete r n)
  then show ?thesis using assms
    by (auto simp: on_withdraw_complete_def call_decorator_def Let_def config_ok_def split: if_splits sum.splits)
qed

lemma step_config_ok: "config_ok this \<Longrightarrow> config_ok (step this env c)"
  by (cases "run this env c") (auto simp: step_def commit_def split: sum.splits dest: run_config_ok)

text \<open>
  The guards of \<^verbatim>\<open>setInitialClaimConfig\<close> and \<^verbatim>\<open>setGroupsInternal\<close> keep every stored
  basis-point value in [0,10000] and every stored duration non-negative, and the ledger
  invariant keeps every allocation non-negative: in a reachable state the calculator is
  only ever run on values that meet the hypotheses of the theorems on it.
\<close>

lemma reachable_config_ok: "reachable this \<Longrightarrow> config_ok this"
proof (induction rule: reachable.induct)
  case reachable_fresh
  show ?case by (simp add: fresh_def config_ok_def)
next
  case (reachable_step this env c)
  then show ?case by (simp add: step_config_ok)
qed

lemma reachable_calculator_inputs:
  assumes "reachable this" "investors this acc = Some r" "groups this (groupId r) = Some grp"
  shows "0 \<le> totalAllocation r \<and> 0 \<le> initialClaimBasisPoints this
    \<and> 0 \<le> initialUnlockBasisPoints grp"
proof -
  have "0 \<le> claimed r \<and> claimed r \<le> totalAllocation r"
    using reachable_ledger_ok[OF assms(1)] assms(2) by (simp add: ledger_ok_def)
  then have "0 \<le> totalAllocation r" by simp
  moreover have "0 \<le> initialClaimBasisPoints this \<and> 0 \<le> initialUnlockBasisPoints grp"
    using reachable_config_ok[OF assms(1)] assms(3) by (simp add: config_ok_def)
  ultimately show ?thesis by simp
qed

section \<open>Bounds of the vested amount\<close>

lemma computeClaimable_le_remaining:
  assumes "computeClaimable this acc now = Inr c" "investors this acc = Some r"
    "claimed r \<le> totalAllocation r"
  shows "c \<le> totalAllocation r - claimed r"
  using assms
  by (auto simp: computeClaimable_def Let_def split: option.splits sum.splits if_splits
      dest: computeVestedAmount_le_total)

lemma computeClaimable_returns:
  assumes "BigInt (tgeTimestampNs this) = Inr tge"
  shows "\<exists>c. computeClaimable this acc now = Inr c"
  by (auto simp: computeClaimable_def Let_def computeVestedAmount_unfold[OF assms]
      split: option.splits)

text \<open>
  C10: for a non-negative allocation and non-negative basis points, with a numeric start
  timestamp, \<^verbatim>\<open>computeVestedAmount\<close> returns a value in \<open>[0, total]\<close>; so the claimable
  amount of a record with \<open>claimed \<le> totalAllocation\<close> is at most
  \<open>totalAllocation - claimed\<close>, and a claim that returns keeps
  \<open>0 \<le> claimed \<le> totalAllocation\<close> for every record.
\<close>

theorem computeVestedAmount_bounds:
  assumes "BigInt (tgeTimestampNs this) = Inr tge"
    and "0 \<le> total'"
    and "0 \<le> initialClaimBasisPoints this"
    and "0 \<le> initialUnlockBasisPoints grp"
  shows "(\<exists>v. computeVestedAmount this total' grp now = Inr v \<and> 0 \<le> v \<and> v \<le> total')
    \<and> (\<forall>acc r. investors this acc = Some r \<longrightarrow> claimed r \<le> totalAllocation r
          \<longrightarrow> (\<exists>c. computeClaimable this acc now = Inr c \<and> c \<le> totalAllocation r - claimed r))
    \<and> (\<forall>env a this' v. ledger_ok (investors this) \<longrightarrow> claim this env a = (this', Inr v)
          \<longrightarrow> ledger_ok (investors this'))"
proof (intro conjI allI impI)
  from computeVestedAmount_uncapped(2)[OF assms]
  obtain w where w: "computeVestedAmount this total' grp now = Inr w" "0 \<le> w" by blast
  then show "\<exists>v. computeVestedAmount this total' grp now = Inr v \<and> 0 \<le> v \<and> v \<le> total'"
    using computeVestedAmount_le_total by blast
next
  fix acc r
  assume r: "investors this acc = Some r" "claimed r \<le> totalAllocation r"
  obtain c where c: "computeClaimable this acc now = Inr c"
    using computeClaimable_returns[OF assms(1)] by blast
  then show "\<exists>c. computeClaimable this acc now = Inr c \<and> c \<le> totalAllocation r - claimed r"
    using computeClaimable_le_remaining[OF c r] by blast
next
  fix env a this' v
  assume "ledger_ok (investors this)" "claim this env a = (this', Inr v)"
  then show "ledger_ok (investors this')" using claim_ledger_ok by blast
qed

text \<open>C10 at the example: 2500 of 10000 is vested at time 60, \<open>alice\<close> can claim 2500,
  and her claim leaves \<open>claimed = 2500\<close>.\<close>

theorem computeVestedAmount_bounds_witness:
  "BigInt (tgeTimestampNs (demo_state 0 0 0 10000)) = Inr 10
   \<and> (0::int) \<le> 10000
   \<and> 0 \<le> initialClaimBasisPoints (demo_state 0 0 0 10000)
   \<and> 0 \<le> initialUnlockBasisPoints demo_group
   \<and> (\<exists>v. computeVestedAmount (demo_state 0 0 0 10000) 10000 demo_group 60 = Inr v
          \<and> 0 \<le> v \<and> v \<le> 10000)
   \<and> investors (demo_state 0 0 0 10000) ''alice'' = Some (demo_record 0)
   \<and> claimed (demo_record 0) \<le> totalAllocation (demo_record 0)
   \<and> (\<exists>c. computeClaimable (demo_state 0 0 0 10000) ''alice'' 60 = Inr c
          \<and> c \<le> totalAllocation (demo_record 0) - claimed (demo_record 0))
   \<and> ledger_ok (investors (demo_state 0 0 0 10000))
   \<and> claim (demo_state 0 0 0 10000) (demo_pay ''alice'' 60) None =
        (demo_state 2500 2500 0 7500,
         Inr (Transfer ''alice'' (Num 2500) ''vesting-claim''
                (on_claim_complete_args ''alice'' (Num 2500))))
   \<and> ledger_ok (investors (demo_state 2500 2500 0 7500))"
proof -
  let ?s = "demo_state 0 0 0 10000"
  have h1: "BigInt (tgeTimestampNs ?s) = Inr 10" by (simp add: demo_state_def)
  have h2: "(0::int) \<le> 10000" by simp
  have h3: "0 \<le> initialClaimBasisPoints ?s" by (simp add: demo_state_def)
  have h4: "0 \<le> initialUnlockBasisPoints demo_group" by (simp add: demo_group_def)
  have r: "investors ?s ''alice'' = Some (demo_record 0)" by (simp add: demo_state_def)
  have le: "claimed (demo_record 0) \<le> totalAllocation (demo_record 0)"
    by (simp add: demo_record_def)
  have ok: "ledger_ok (investors ?s)" using demo_state_reachable by (rule reachable_ledger_ok)
  have cl: "claim ?s (demo_pay ''alice'' 60) None =
        (demo_state 2500 2500 0 7500,
         Inr (Transfer ''alice'' (Num 2500) ''vesting-claim''
                (on_claim_complete_args ''alice'' (Num 2500))))"
    using demo_claim by simp
  note b = computeVestedAmount_bounds[OF h1 h2 h3 h4, of 60]
  have b1: "\<exists>v. computeVestedAmount ?s 10000 demo_group 60 = Inr v \<and> 0 \<le> v \<and> v \<le> 10000"
    using b by blast
  have b2: "\<exists>c. computeClaimable ?s ''alice'' 60 = Inr c
          \<and> c \<le> totalAllocation (demo_record 0) - claimed (demo_record 0)"
    using b r le by blast
  have b3: "ledger_ok (investors (demo_state 2500 2500 0 7500))"
    using b ok cl by blast
  show ?thesis using h1 h2 h3 h4 b1 r le b2 ok cl b3 by blast
qed

section \<open>The synchronous phase of a claim\<close>

text \<open>
  C4: an authorised claim (one yoctoNEAR attached; for oneself, or by the owner for any
  account) on an account with a record, whose claimable amount the calculator returns:
  with claimable 0 it throws the nothing-to-claim error, with claimable above the pool
  balance it throws the insufficient-pool-balance error, and in both cases the object is
  untouched and the call leaves the state as it was; otherwise it adds claimable to the
  record's \<open>claimed\<close> and to \<open>totalClaimed\<close>, takes it from \<open>poolBalance\<close>, changes
  nothing else, and only then returns the transfer of that amount to the claimant with
  its callback.
\<close>

theorem claim_checks_then_deducts:
  assumes "attachedDeposit env = ONE_YOCTO"
    and "claimant = (case a of None \<Rightarrow> predecessorAccountId env | Some given \<Rightarrow> given)"
    and "claimant = predecessorAccountId env \<or> predecessorAccountId env = owner this"
    and "investors this claimant = Some r"
    and "computeClaimable this claimant (int (blockTimestamp env)) = Inr claimable"
  shows "(claimable = 0 \<longrightarrow>
            run this env (Claim a) = (this, Inl NothingToClaim) \<and> step this env (Claim a) = this)
    \<and> (claimable \<noteq> 0 \<and> claimable > poolBalance this \<longrightarrow>
            run this env (Claim a) = (this, Inl InsufficientPoolBalance)
            \<and> step this env (Claim a) = this)
    \<and> (claimable \<noteq> 0 \<and> claimable \<le> poolBalance this \<longrightarrow>
            run this env (Claim a) =
              (this\<lparr>investors := (investors this)
                       (claimant \<mapsto> r\<lparr>claimed := claimed r + claimable\<rparr>),
                    totalClaimed := totalClaimed this + claimable,
                    poolBalance := poolBalance this - claimable\<rparr>,
               Inr (Transfer claimant (Num claimable) ''vesting-claim''
                      (on_claim_complete_args claimant (Num claimable)))))"
proof -
  have nonneg: "0 \<le> claimable" using assms(5)
    by (auto simp: computeClaimable_def Let_def split: option.splits sum.splits if_splits)
  show ?thesis
    using assms nonneg
    by (cases a) (auto simp: claim_def call_decorator_def Let_def step_def commit_def)
qed

text \<open>C4 at the example: at time 5 nothing is claimable; at time 60 with the pool drained
  to 1000 the pool is short; at time 60 with the full pool 2500 are deducted.\<close>

theorem claim_checks_then_deducts_witness:
  "run (demo_state 0 0 0 10000) (demo_pay ''alice'' 5) (Claim None)
      = (demo_state 0 0 0 10000, Inl NothingToClaim)
   \<and> step (demo_state 0 0 0 10000) (demo_pay ''alice'' 5) (Claim None)
      = demo_state 0 0 0 10000
   \<and> run (demo_state 0 0 9000 1000) (demo_pay ''root'' 60) (Claim (Some ''alice''))
      = (demo_state 0 0 9000 1000, Inl InsufficientPoolBalance)
   \<and> step (demo_state 0 0 9000 1000) (demo_pay ''root'' 60) (Claim (Some ''alice''))
      = demo_state 0 0 9000 1000
   \<and> run (demo_state 0 0 0 10000) (demo_pay ''alice'' 60) (Claim None)
      = (demo_state 2500 2500 0 7500,
         Inr (Transfer ''alice'' (Num 2500) ''vesting-claim''
                (on_claim_complete_args ''alice'' (Num 2500))))"
proof -
  have dep: "\<And>who t. attachedDeposit (demo_pay who t) = ONE_YOCTO"
    by (simp add: demo_env_def demo_pay_def ONE_YOCTO_def)
  have rec: "\<And>tw pb. investors (demo_state 0 0 tw pb) ''alice'' = Some (demo_record 0)"
    by (simp add: demo_state_def)
  have c5: "computeClaimable (demo_state 0 0 0 10000) ''alice''
              (int (blockTimestamp (demo_pay ''alice'' 5))) = Inr 0"
    by (simp add: computeClaimable_def computeVestedAmount_def Let_def demo_env_def demo_pay_def demo_state_def
        demo_record_def demo_group_def BASIS_POINTS_DENOMINATOR_def signed_divide_int_def)
  have c60: "\<And>who tw pb. computeClaimable (demo_state 0 0 tw pb) ''alice''
              (int (blockTimestamp (demo_pay who 60))) = Inr 2500"
    by (simp add: computeClaimable_def computeVestedAmount_def Let_def demo_env_def demo_pay_def demo_state_def
        demo_record_def demo_group_def BASIS_POINTS_DENOMINATOR_def signed_divide_int_def)
  have t1: "run (demo_state 0 0 0 10000) (demo_pay ''alice'' 5) (Claim None)
      = (demo_state 0 0 0 10000, Inl NothingToClaim)
     \<and> step (demo_state 0 0 0 10000) (demo_pay ''alice'' 5) (Claim None)
      = demo_state 0 0 0 10000"
    using claim_checks_then_deducts[where a = None and claimant = "''alice''", OF dep _ _ rec c5]
    by (simp add: demo_env_def demo_pay_def)
  have t2: "run (demo_state 0 0 9000 1000) (demo_pay ''root'' 60) (Claim (Some ''alice''))
      = (demo_state 0 0 9000 1000, Inl InsufficientPoolBalance)
     \<and> step (demo_state 0 0 9000 1000) (demo_pay ''root'' 60) (Claim (Some ''alice''))
      = demo_state 0 0 9000 1000"
    using claim_checks_then_deducts[where a = "Some ''alice''" and claimant = "''alice''",
        OF dep _ _ rec c60, of "''root''" 9000 1000]
    by (simp add: demo_env_def demo_pay_def demo_state_def)
  have t3: "run (demo_state 0 0 0 10000) (demo_pay ''alice'' 60) (Claim None)
      = (demo_state 2500 2500 0 7500,
         Inr (Transfer ''alice'' (Num 2500) ''vesting-claim''
                (on_claim_complete_args ''alice'' (Num 2500))))"
    using claim_checks_then_deducts[where a = None and claimant = "''alice''",
        OF dep _ _ rec c60, of "''alice''" 0 10000]
    by (simp add: demo_env_def demo_pay_def demo_state_def demo_record_def)
  show ?thesis using t1 t2 t3 by blast
qed

section \<open>The resolution callbacks\<close>

lemma step_throw: "snd (run this env c) = Inl e \<Longrightarrow> step this env c = this"
  by (cases "run this env c") (simp add: step_def commit_def)

text \<open>
  The \<^verbatim>\<open>catch\<close> block of \<^verbatim>\<open>on_claim_complete\<close> undoes a claim exactly: run on the
  object a returning claim produced, with that claim's account and amount, it rebuilds
  the object from before the claim. It then throws. (The contract calls itself with no
  deposit attached.)
\<close>

lemma on_claim_complete_reverses_in_memory:
  assumes c: "claim this env a = (this1, Inr (Transfer claimant n memo (on_claim_complete_args acc amt)))"
    and self: "predecessorAccountId cb = currentAccountId cb"
    and nodeposit: "attachedDeposit cb = 0"
    and failed: "\<not> promiseSucceeded cb"
  shows "on_claim_complete this1 cb acc amt = (this, Inl TokenTransferFailed)"
proof -
  from claim_success[OF c] obtain who r k where
    r: "investors this who = Some r" and
    this1: "this1 = this\<lparr>investors := (investors this)(who \<mapsto> r\<lparr>claimed := claimed r + k\<rparr>),
                            totalClaimed := totalClaimed this + k,
                            poolBalance := poolBalance this - k\<rparr>" and
    args: "acc = who \<and> amt = Num k"
    by auto
  have restored: "(investors this)(who \<mapsto> r) = investors this" using r by (rule map_upd_triv)
  show ?thesis
    using self nodeposit failed args restored by (simp add: on_claim_complete_def call_decorator_def this1 Let_def)
qed

lemma on_withdraw_complete_reverses_in_memory:
  assumes w: "withdraw_unallocated this env amount' recipient memo =
                (this1, Inr (Transfer target n m (on_withdraw_complete_args rcp amt)))"
    and self: "predecessorAccountId cb = currentAccountId cb"
    and nodeposit: "attachedDeposit cb = 0"
    and failed: "\<not> promiseSucceeded cb"
  shows "on_withdraw_complete this1 cb rcp amt = (this, Inl TokenTransferFailed)"
  using assms
  by (auto simp: withdraw_unallocated_def call_decorator_def on_withdraw_complete_def Let_def
      split: if_splits sum.splits)

text \<open>But the callback throws, so the call that ran it retains nothing.\<close>

lemma failed_callback_retains_nothing:
  assumes "predecessorAccountId cb = currentAccountId cb" and "\<not> promiseSucceeded cb"
  shows "step this cb (OnClaimComplete acc amt) = this"
    and "step this cb (OnWithdrawComplete rcp amt) = this"
proof -
  have "\<exists>e. snd (run this cb (OnClaimComplete acc amt)) = Inl e"
    using assms by (simp add: on_claim_complete_def call_decorator_def Let_def split: option.splits sum.splits)
  then show "step this cb (OnClaimComplete acc amt) = this" using step_throw by blast
  have "\<exists>e. snd (run this cb (OnWithdrawComplete rcp amt)) = Inl e"
    using assms by (simp add: on_withdraw_complete_def call_decorator_def Let_def split: sum.splits)
  then show "step this cb (OnWithdrawComplete rcp amt) = this" using step_throw by blast
qed

text \<open>
  C5 does not hold of the states between calls. In the example \<open>alice\<close> claims 2500 at
  time 60 and the transfer fails. The callback's \<^verbatim>\<open>catch\<close> block rebuilds the pre-claim
  object in memory and throws; the failed call retains nothing, so the next call still
  finds \<open>claimed = 2500\<close>, \<open>totalClaimed = 2500\<close> and \<open>poolBalance = 7500\<close>, not the
  pre-claim 0, 0 and 10000. The same happens to a withdrawal of 3000: \<open>poolBalance\<close>
  stays 7000 and \<open>totalWithdrawn\<close> stays 3000.
\<close>

theorem failed_transfer_reversal_not_retained:
  "run (demo_state 0 0 0 10000) (demo_pay ''alice'' 60) (Claim None)
     = (demo_state 2500 2500 0 7500,
        Inr (Transfer ''alice'' (Num 2500) ''vesting-claim''
               (on_claim_complete_args ''alice'' (Num 2500))))
   \<and> run (demo_state 2500 2500 0 7500) (demo_env ''vesting'' 70 False)
         (OnClaimComplete ''alice'' (Num 2500))
     = (demo_state 0 0 0 10000, Inl TokenTransferFailed)
   \<and> step (demo_state 2500 2500 0 7500) (demo_env ''vesting'' 70 False)
         (OnClaimComplete ''alice'' (Num 2500))
     = demo_state 2500 2500 0 7500
   \<and> investors (demo_state 2500 2500 0 7500) ''alice'' = Some (demo_record 2500)
   \<and> investors (demo_state 0 0 0 10000) ''alice'' = Some (demo_record 0)
   \<and> run (demo_state 0 0 0 10000) (demo_pay ''root'' 60)
         (WithdrawUnallocated (Num 3000) None None)
     = (demo_state 0 0 3000 7000,
        Inr (Transfer ''root'' (Num 3000) ''vesting-withdrawal''
               (on_withdraw_complete_args ''root'' (Num 3000))))
   \<and> run (demo_state 0 0 3000 7000) (demo_env ''vesting'' 70 False)
         (OnWithdrawComplete ''root'' (Num 3000))
     = (demo_state 0 0 0 10000, Inl TokenTransferFailed)
   \<and> step (demo_state 0 0 3000 7000) (demo_env ''vesting'' 70 False)
         (OnWithdrawComplete ''root'' (Num 3000))
     = demo_state 0 0 3000 7000"
proof (intro conjI)
  show "run (demo_state 0 0 0 10000) (demo_pay ''alice'' 60) (Claim None)
     = (demo_state 2500 2500 0 7500,
        Inr (Transfer ''alice'' (Num 2500) ''vesting-claim''
               (on_claim_complete_args ''alice'' (Num 2500))))"
    by (rule demo_claim)
  show "run (demo_state 2500 2500 0 7500) (demo_env ''vesting'' 70 False)
         (OnClaimComplete ''alice'' (Num 2500))
     = (demo_state 0 0 0 10000, Inl TokenTransferFailed)"
    by (simp add: on_claim_complete_def call_decorator_def demo_state_def demo_env_def demo_pay_def demo_record_def Let_def)
  then show "step (demo_state 2500 2500 0 7500) (demo_env ''vesting'' 70 False)
         (OnClaimComplete ''alice'' (Num 2500))
     = demo_state 2500 2500 0 7500"
    by (simp add: step_def commit_def)
  show "investors (demo_state 2500 2500 0 7500) ''alice'' = Some (demo_record 2500)"
    by (simp add: demo_state_def)
  show "investors (demo_state 0 0 0 10000) ''alice'' = Some (demo_record 0)"
    by (simp add: demo_state_def)
  show "run (demo_state 0 0 0 10000) (demo_pay ''root'' 60)
         (WithdrawUnallocated (Num 3000) None None)
     = (demo_state 0 0 3000 7000,
        Inr (Transfer ''root'' (Num 3000) ''vesting-withdrawal''
               (on_withdraw_complete_args ''root'' (Num 3000))))"
    by (simp add: withdraw_unallocated_def call_decorator_def demo_state_def demo_env_def demo_pay_def ONE_YOCTO_def Let_def)
  show "run (demo_state 0 0 3000 7000) (demo_env ''vesting'' 70 False)
         (OnWithdrawComplete ''root'' (Num 3000))
     = (demo_state 0 0 0 10000, Inl TokenTransferFailed)"
    by (simp add: on_withdraw_complete_def call_decorator_def demo_state_def demo_env_def demo_pay_def Let_def)
  then show "step (demo_state 0 0 3000 7000) (demo_env ''vesting'' 70 False)
         (OnWithdrawComplete ''root'' (Num 3000))
     = demo_state 0 0 3000 7000"
    by (simp add: step_def commit_def)
qed

section \<open>Replacing the group registry\<close>

lemma setGroupEntry_accepts:
  assumes "setGroupEntry seen gm g = Inr (seen', gm')"
  shows "\<not> group_entry_invalid g
    \<and> (\<exists>gid. id_field g = Some gid \<and> gid \<notin> seen \<and> seen' = insert gid seen)"
  using assms
  by (auto simp: setGroupEntry_def group_entry_invalid_def BASIS_POINTS_DENOMINATOR_def
      split: option.splits if_splits sum.splits)

text \<open>A loop that runs to its end has met no invalid entry and no id twice.\<close>

lemma setGroupsLoop_accepts:
  "setGroupsLoop seen gm gs = (gm', Inr u) \<Longrightarrow>
     (\<forall>g \<in> set gs. \<not> group_entry_invalid g) \<and> distinct (map id_field gs)
     \<and> (\<forall>g \<in> set gs. \<forall>gid. id_field g = Some gid \<longrightarrow> gid \<notin> seen)"
proof (induction gs arbitrary: seen gm)
  case Nil
  then show ?case by simp
next
  case (Cons g rest)
  from Cons.prems obtain seen1 gm1 where
    e: "setGroupEntry seen gm g = Inr (seen1, gm1)" and
    l: "setGroupsLoop seen1 gm1 rest = (gm', Inr u)"
    by (auto split: sum.splits)
  from setGroupEntry_accepts[OF e] obtain gid where
    ok: "\<not> group_entry_invalid g" and gid: "id_field g = Some gid" "gid \<notin> seen"
    and seen1: "seen1 = insert gid seen" by auto
  from Cons.IH[OF l] have
    ih: "\<forall>g \<in> set rest. \<not> group_entry_invalid g" "distinct (map id_field rest)"
        "\<forall>g \<in> set rest. \<forall>gid. id_field g = Some gid \<longrightarrow> gid \<notin> seen1" by auto
  have "id_field g \<notin> set (map id_field rest)"
  proof
    assume "id_field g \<in> set (map id_field rest)"
    then obtain x where "x \<in> set rest" "id_field x = Some gid" using gid(1) by auto
    then have "gid \<notin> seen1" using ih(3) by blast
    then show False by (simp add: seen1)
  qed
  then show ?case using ok gid ih seen1 by auto
qed

lemma configure_groups_rejects:
  assumes "groups_input_invalid gs"
  shows "\<exists>e. snd (run this env (ConfigureGroups gs)) = Inl e"
proof (cases "setGroupsLoop {} Map.empty gs")
  case (Pair gm r)
  have "r \<noteq> Inr ()" using setGroupsLoop_accepts[of "{}" Map.empty gs gm "()"] Pair assms
    by (auto simp: groups_input_invalid_def)
  then obtain e where "r = Inl e" by (cases r) auto
  then show ?thesis using Pair by (simp add: configure_groups_def call_decorator_def setGroupsInternal_def)
qed

text \<open>
  C7: when the input list of \<^verbatim>\<open>configure_groups\<close> holds an invalid entry (missing id,
  negative cliff or vesting duration, basis points outside [0,10000]) or an id twice,
  the call throws and the state after it, the group registry with it, is the state
  from before the call.
\<close>

theorem configure_groups_all_or_nothing:
  assumes "groups_input_invalid gs"
  shows "(\<exists>e. snd (run this env (ConfigureGroups gs)) = Inl e)
    \<and> step this env (ConfigureGroups gs) = this
    \<and> groups (step this env (ConfigureGroups gs)) = groups this"
proof -
  obtain e where e: "snd (run this env (ConfigureGroups gs)) = Inl e"
    using configure_groups_rejects[OF assms] by blast
  then have "step this env (ConfigureGroups gs) = this" by (rule step_throw)
  then show ?thesis using e by simp
qed

text \<open>
  The method itself has written by then: it clears the registry before it looks at the
  first entry, and stores every entry that precedes the invalid one. In the example, a
  list with a valid group \<open>a\<close> and then a negative cliff leaves the object with the
  registry \<open>[a]\<close>; only the failed call's not being retained restores \<open>[seed]\<close>.
\<close>

lemma setGroupsInternal_writes_before_validating:
  "run (demo_state 0 0 0 10000) (demo_env ''root'' 5 True)
     (ConfigureGroups
        [\<lparr> id_field = Some ''a'', cliff_duration_ns = Num 1, vesting_duration_ns = Num 2,
            initial_unlock_basis_points = Undefined \<rparr>,
         \<lparr> id_field = Some ''b'', cliff_duration_ns = Num (- 1), vesting_duration_ns = Num 2,
            initial_unlock_basis_points = Undefined \<rparr>])
   = ((demo_state 0 0 0 10000)
        \<lparr>groups := [''a'' \<mapsto> \<lparr> cliffDurationNs = 1, vestingDurationNs = 2,
                               initialUnlockBasisPoints = 0 \<rparr>]\<rparr>,
      Inl DurationsNegative)"
  by (simp add: configure_groups_def call_decorator_def setGroupsInternal_def setGroupEntry_def demo_state_def
      demo_env_def demo_pay_def BASIS_POINTS_DENOMINATOR_def)

text \<open>C7 at the example: the list above is invalid, the call throws, the registry stays.\<close>

theorem configure_groups_all_or_nothing_witness:
  "groups_input_invalid
     [\<lparr> id_field = Some ''a'', cliff_duration_ns = Num 1, vesting_duration_ns = Num 2,
         initial_unlock_basis_points = Undefined \<rparr>,
      \<lparr> id_field = Some ''b'', cliff_duration_ns = Num (- 1), vesting_duration_ns = Num 2,
         initial_unlock_basis_points = Undefined \<rparr>]
   \<and> (\<exists>e. snd (run (demo_state 0 0 0 10000) (demo_env ''root'' 5 True)
         (ConfigureGroups
            [\<lparr> id_field = Some ''a'', cliff_duration_ns = Num 1, vesting_duration_ns = Num 2,
                initial_unlock_basis_points = Undefined \<rparr>,
             \<lparr> id_field = Some ''b'', cliff_duration_ns = Num (- 1), vesting_duration_ns = Num 2,
                initial_unlock_basis_points = Undefined \<rparr>])) = Inl e)
   \<and> groups (step (demo_state 0 0 0 10000) (demo_env ''root'' 5 True)
         (ConfigureGroups
            [\<lparr> id_field = Some ''a'', cliff_duration_ns = Num 1, vesting_duration_ns = Num 2,
                initial_unlock_basis_points = Undefined \<rparr>,
             \<lparr> id_field = Some ''b'', cliff_duration_ns = Num (- 1), vesting_duration_ns = Num 2,
                initial_unlock_basis_points = Undefined \<rparr>]))
       = [''seed'' \<mapsto> demo_group]"
proof -
  let ?gs = "[\<lparr> id_field = Some ''a'', cliff_duration_ns = Num 1, vesting_duration_ns = Num 2,
         initial_unlock_basis_points = Undefined \<rparr>,
      \<lparr> id_field = Some ''b'', cliff_duration_ns = Num (- 1), vesting_duration_ns = Num 2,
         initial_unlock_basis_points = Undefined \<rparr>]"
  have bad: "groups_input_invalid ?gs"
    by (simp add: groups_input_invalid_def group_entry_invalid_def)
  have g: "groups (demo_state 0 0 0 10000) = [''seed'' \<mapsto> demo_group]"
    by (simp add: demo_state_def)
  show ?thesis
    using configure_groups_all_or_nothing[OF bad, of "demo_state 0 0 0 10000"
        "demo_env ''root'' 5 True"] bad g
    by simp
qed

section \<open>Upserting investors\<close>

lemma upsertEntry_accepts:
  assumes "upsertEntry gm seen ledger entry = Inr (seen', ledger')"
  shows "\<exists>acc gid amount'. account_id entry = Some acc \<and> acc \<noteq> [] \<and> group_id entry = Some gid
      \<and> gid \<noteq> [] \<and> \<not> falsy (amount entry) \<and> gm gid \<noteq> None \<and> BigInt (amount entry) = Inr amount'
      \<and> 0 < amount' \<and> (\<forall>current. ledger acc = Some current \<longrightarrow> claimed current \<le> amount')
      \<and> acc \<notin> seen \<and> seen' = insert acc seen
      \<and> (\<forall>other. other \<noteq> acc \<longrightarrow> ledger' other = ledger other)"
  using assms
  by (auto simp: upsertEntry_def Let_def split: option.splits if_splits sum.splits)

text \<open>A loop that runs to its end has met no invalid entry and no account twice. The
  accounts not yet seen still have the record from before the call, so the loop's check
  against \<open>claimed\<close> is the check against the ledger from before the call.\<close>

lemma upsertLoop_accepts:
  "upsertLoop (groups this) seen ledger es = (ledger', Inr u) \<Longrightarrow>
   (\<forall>acc. acc \<notin> seen \<longrightarrow> ledger acc = investors this acc) \<Longrightarrow>
     (\<forall>entry \<in> set es. \<not> investor_entry_invalid this entry) \<and> distinct (map account_id es)
     \<and> (\<forall>entry \<in> set es. \<forall>acc. account_id entry = Some acc \<longrightarrow> acc \<notin> seen)"
proof (induction es arbitrary: seen ledger)
  case Nil
  then show ?case by simp
next
  case (Cons entry rest)
  from Cons.prems(1) obtain seen1 ledger1 where
    e: "upsertEntry (groups this) seen ledger entry = Inr (seen1, ledger1)" and
    l: "upsertLoop (groups this) seen1 ledger1 rest = (ledger', Inr u)"
    by (auto split: sum.splits)
  from upsertEntry_accepts[OF e] obtain acc gid amount' where
    f: "account_id entry = Some acc" "acc \<noteq> []" "group_id entry = Some gid" "gid \<noteq> []"
       "\<not> falsy (amount entry)" "groups this gid \<noteq> None" "BigInt (amount entry) = Inr amount'"
       "0 < amount'" "\<forall>current. ledger acc = Some current \<longrightarrow> claimed current \<le> amount'"
       "acc \<notin> seen" "seen1 = insert acc seen"
       "\<forall>other. other \<noteq> acc \<longrightarrow> ledger1 other = ledger other"
    by blast
  have same: "ledger acc = investors this acc" using Cons.prems(2) f(10) by simp
  have ok: "\<not> investor_entry_invalid this entry"
    using f same by (auto simp: investor_entry_invalid_def split: option.splits)
  have agree: "\<forall>a. a \<notin> seen1 \<longrightarrow> ledger1 a = investors this a"
    using Cons.prems(2) f(11,12) by auto
  from Cons.IH[OF l agree] have
    ih: "\<forall>entry \<in> set rest. \<not> investor_entry_invalid this entry"
        "distinct (map account_id rest)"
        "\<forall>entry \<in> set rest. \<forall>acc. account_id entry = Some acc \<longrightarrow> acc \<notin> seen1" by auto
  have "account_id entry \<notin> set (map account_id rest)"
  proof
    assume "account_id entry \<in> set (map account_id rest)"
    then obtain x where "x \<in> set rest" "account_id x = Some acc" using f(1) by auto
    then have "acc \<notin> seen1" using ih(3) by blast
    then show False by (simp add: f(11))
  qed
  then show ?case using ok f ih by auto
qed

lemma upsert_investors_rejects:
  assumes "investors_input_invalid this es"
  shows "\<exists>e. snd (run this env (UpsertInvestors es)) = Inl e"
proof (cases "upsertLoop (groups this) {} (investors this) es")
  case (Pair ledger r)
  have "r \<noteq> Inr ()"
    using upsertLoop_accepts[of this "{}" "investors this" es ledger "()"] Pair assms
    by (auto simp: investors_input_invalid_def)
  then obtain e where "r = Inl e" by (cases r) auto
  then show ?thesis using Pair by (simp add: upsert_investors_def call_decorator_def)
qed

text \<open>
  C8: when the batch of \<^verbatim>\<open>upsert_investors\<close> holds an invalid entry (missing field,
  unknown group, non-positive amount, amount below what the account has claimed) or an
  account twice, the call throws and the state after it, the investor ledger with it,
  is the state from before the call: no entry's mutation is retained.
\<close>

theorem upsert_investors_all_or_nothing:
  assumes "investors_input_invalid this es"
  shows "(\<exists>e. snd (run this env (UpsertInvestors es)) = Inl e)
    \<and> step this env (UpsertInvestors es) = this
    \<and> investors (step this env (UpsertInvestors es)) = investors this"
proof -
  obtain e where e: "snd (run this env (UpsertInvestors es)) = Inl e"
    using upsert_investors_rejects[OF assms] by blast
  then have "step this env (UpsertInvestors es) = this" by (rule step_throw)
  then show ?thesis using e by simp
qed

text \<open>
  The method itself writes entry by entry: in the example, a batch that adds \<open>bob\<close> and
  then names an unknown group leaves the object with \<open>bob\<close> in the ledger; only the
  failed call's not being retained removes him again.
\<close>

lemma upsert_investors_writes_before_validating:
  "run (demo_state 0 0 0 10000) (demo_env ''root'' 5 True)
     (UpsertInvestors
        [\<lparr> account_id = Some ''bob'', group_id = Some ''seed'', amount = Num 7 \<rparr>,
         \<lparr> account_id = Some ''carol'', group_id = Some ''angel'', amount = Num 9 \<rparr>])
   = ((demo_state 0 0 0 10000)
        \<lparr>investors := [''alice'' \<mapsto> demo_record 0,
                       ''bob'' \<mapsto> \<lparr> groupId = ''seed'', totalAllocation = 7, claimed = 0 \<rparr>]\<rparr>,
      Inl (UnknownGroup ''angel''))"
  by (simp add: upsert_investors_def call_decorator_def upsertEntry_def demo_state_def demo_env_def demo_pay_def Let_def)

text \<open>C8 at the example: the batch above is invalid, the call throws, the ledger stays.\<close>

theorem upsert_investors_all_or_nothing_witness:
  "investors_input_invalid (demo_state 0 0 0 10000)
     [\<lparr> account_id = Some ''bob'', group_id = Some ''seed'', amount = Num 7 \<rparr>,
      \<lparr> account_id = Some ''carol'', group_id = Some ''angel'', amount = Num 9 \<rparr>]
   \<and> (\<exists>e. snd (run (demo_state 0 0 0 10000) (demo_env ''root'' 5 True)
         (UpsertInvestors
            [\<lparr> account_id = Some ''bob'', group_id = Some ''seed'', amount = Num 7 \<rparr>,
             \<lparr> account_id = Some ''carol'', group_id = Some ''angel'', amount = Num 9 \<rparr>]))
        = Inl e)
   \<and> investors (step (demo_state 0 0 0 10000) (demo_env ''root'' 5 True)
         (UpsertInvestors
            [\<lparr> account_id = Some ''bob'', group_id = Some ''seed'', amount = Num 7 \<rparr>,
             \<lparr> account_id = Some ''carol'', group_id = Some ''angel'', amount = Num 9 \<rparr>]))
       = [''alice'' \<mapsto> demo_record 0]"
proof -
  let ?es = "[\<lparr> account_id = Some ''bob'', group_id = Some ''seed'', amount = Num 7 \<rparr>,
      \<lparr> account_id = Some ''carol'', group_id = Some ''angel'', amount = Num 9 \<rparr>]"
  have bad: "investors_input_invalid (demo_state 0 0 0 10000) ?es"
    by (simp add: investors_input_invalid_def investor_entry_invalid_def demo_state_def)
  have i: "investors (demo_state 0 0 0 10000) = [''alice'' \<mapsto> demo_record 0]"
    by (simp add: demo_state_def)
  show ?thesis
    using upsert_investors_all_or_nothing[OF bad, of "demo_env ''root'' 5 True"] bad i
    by simp
qed



end
